theory Spec2Isabelle
  imports Complex_Main "HOL-Library.AList"
begin

section \<open>JavaScript numbers: the model\<close>

text \<open>
  A JavaScript number is an IEEE 754 double. The model keeps a finite double as the real
  number it denotes and rounds the exact result of every arithmetic operation to the
  nearest double, ties to even, with gradual underflow and with overflow to an infinity
  (\<open>fl\<close>). \<^verbatim>\<open>Infinity\<close>, \<^verbatim>\<open>-Infinity\<close> and \<^verbatim>\<open>NaN\<close> are values of their own. The sign of
  a zero is not kept: a zero is taken as \<open>+0\<close>.
\<close>

subsection \<open>Rounding a real number to a double\<close>

text \<open>The number of binary digits of a positive integer.\<close>

function bits :: "int \<Rightarrow> int" where
  "bits k = (if k \<le> 0 then 0 else 1 + bits (k div 2))"
  by pat_completeness auto
termination
  by (relation "measure nat") auto

text \<open>The binary exponent of a positive real: \<open>2 powi ilog2 x \<le> x < 2 powi (ilog2 x + 1)\<close>.\<close>

definition ilog2 :: "real \<Rightarrow> int" where
  "ilog2 x = (if 1 \<le> x then bits \<lfloor>x\<rfloor> - 1 else - bits (\<lceil>1 / x\<rceil> - 1))"

text \<open>The nearest integer, a tie going to the even one.\<close>

definition rne :: "real \<Rightarrow> int" where
  "rne r = (let f = \<lfloor>r\<rfloor>; d = r - of_int f
            in if d < 1 / 2 then f
               else if 1 / 2 < d then f + 1
               else if even f then f else f + 1)"

text \<open>
  A double has 53 significant binary digits, and its binary exponent is at least
  \<open>-1022\<close>: the doubles next to \<open>x\<close> are the multiples of \<open>2 powi ulp_exponent x\<close>.
\<close>

definition ulp_exponent :: "real \<Rightarrow> int" where
  "ulp_exponent x = max (ilog2 \<bar>x\<bar>) (- 1022) - 52"

definition round_double :: "real \<Rightarrow> real" where
  "round_double x =
     (if x = 0 then 0
      else of_int (rne (x / 2 powi ulp_exponent x)) * 2 powi ulp_exponent x)"

datatype jsnum = Fin real | PosInf | NegInf | NaN

text \<open>The double of a real: rounded, and an infinity from \<open>2 ^ 1024\<close> on.\<close>

definition fl :: "real \<Rightarrow> jsnum" where
  "fl x = (let r = round_double x
           in if 2 ^ 1024 \<le> r then PosInf
              else if r \<le> - (2 ^ 1024) then NegInf
              else Fin r)"

subsection \<open>Arithmetic\<close>

text \<open>
  \<^verbatim>\<open>+\<close>, \<^verbatim>\<open>-\<close>, \<^verbatim>\<open>*\<close>, \<^verbatim>\<open>/\<close>, \<^verbatim>\<open><\<close>, \<^verbatim>\<open>Math.ceil\<close> and \<^verbatim>\<open>Math.max\<close> on numbers, with the
  rules of IEEE 754 for the infinities and NaN (every comparison with NaN is false, and
  \<^verbatim>\<open>Math.max\<close> of a NaN is NaN).
\<close>

fun js_add :: "jsnum \<Rightarrow> jsnum \<Rightarrow> jsnum" where
  "js_add (Fin a) (Fin b) = fl (a + b)"
| "js_add NaN _ = NaN"
| "js_add _ NaN = NaN"
| "js_add PosInf NegInf = NaN"
| "js_add NegInf PosInf = NaN"
| "js_add PosInf _ = PosInf"
| "js_add _ PosInf = PosInf"
| "js_add NegInf _ = NegInf"
| "js_add _ NegInf = NegInf"

fun js_sub :: "jsnum \<Rightarrow> jsnum \<Rightarrow> jsnum" where
  "js_sub (Fin a) (Fin b) = fl (a - b)"
| "js_sub NaN _ = NaN"
| "js_sub _ NaN = NaN"
| "js_sub PosInf PosInf = NaN"
| "js_sub NegInf NegInf = NaN"
| "js_sub PosInf _ = PosInf"
| "js_sub _ PosInf = NegInf"
| "js_sub NegInf _ = NegInf"
| "js_sub _ NegInf = PosInf"

fun js_mul :: "jsnum \<Rightarrow> jsnum \<Rightarrow> jsnum" where
  "js_mul (Fin a) (Fin b) = fl (a * b)"
| "js_mul NaN _ = NaN"
| "js_mul _ NaN = NaN"
| "js_mul PosInf (Fin b) = (if b = 0 then NaN else if 0 < b then PosInf else NegInf)"
| "js_mul NegInf (Fin b) = (if b = 0 then NaN else if 0 < b then NegInf else PosInf)"
| "js_mul (Fin a) PosInf = (if a = 0 then NaN else if 0 < a then PosInf else NegInf)"
| "js_mul (Fin a) NegInf = (if a = 0 then NaN else if 0 < a then NegInf else PosInf)"
| "js_mul PosInf PosInf = PosInf"
| "js_mul NegInf NegInf = PosInf"
| "js_mul PosInf NegInf = NegInf"
| "js_mul NegInf PosInf = NegInf"

fun js_div :: "jsnum \<Rightarrow> jsnum \<Rightarrow> jsnum" where
  "js_div (Fin a) (Fin b) =
     (if b \<noteq> 0 then fl (a / b)
      else if a = 0 then NaN else if 0 < a then PosInf else NegInf)"
| "js_div NaN _ = NaN"
| "js_div _ NaN = NaN"
| "js_div (Fin a) PosInf = Fin 0"
| "js_div (Fin a) NegInf = Fin 0"
| "js_div PosInf (Fin b) = (if 0 \<le> b then PosInf else NegInf)"
| "js_div NegInf (Fin b) = (if 0 \<le> b then NegInf else PosInf)"
| "js_div _ _ = NaN"

fun js_less :: "jsnum \<Rightarrow> jsnum \<Rightarrow> bool" where
  "js_less (Fin a) (Fin b) = (a < b)"
| "js_less NaN _ = False"
| "js_less _ NaN = False"
| "js_less NegInf NegInf = False"
| "js_less NegInf _ = True"
| "js_less PosInf _ = False"
| "js_less (Fin a) PosInf = True"
| "js_less (Fin a) NegInf = False"

fun js_ceil :: "jsnum \<Rightarrow> jsnum" where
  "js_ceil (Fin a) = Fin (of_int \<lceil>a\<rceil>)"
| "js_ceil x = x"

fun js_max :: "jsnum \<Rightarrow> jsnum \<Rightarrow> jsnum" where
  "js_max NaN _ = NaN"
| "js_max _ NaN = NaN"
| "js_max a b = (if js_less a b then b else a)"

text \<open>\<^verbatim>\<open>values.reduce((a, b) => a + b, 0)\<close>.\<close>

definition js_sum :: "jsnum list \<Rightarrow> jsnum" where
  "js_sum values = foldl js_add (Fin 0) values"

subsection \<open>Array reads\<close>

text \<open>
  \<^verbatim>\<open>xs[i]\<close> for a number \<open>i\<close>: the element when \<open>i\<close> is an integer and a position of the
  array, and \<^verbatim>\<open>undefined\<close> (here \<open>None\<close>) for every other number.
\<close>

fun at_index :: "'a list \<Rightarrow> jsnum \<Rightarrow> 'a option" where
  "at_index xs (Fin i) =
     (if 0 \<le> i \<and> i < real (length xs) \<and> of_int \<lfloor>i\<rfloor> = i then Some (xs ! nat \<lfloor>i\<rfloor>) else None)"
| "at_index xs _ = None"

section \<open>Statistics toolkit: the model\<close>

subsection \<open>Percentiles\<close>

text \<open>
  \<^verbatim>\<open>AdvancedAnalyticsClient.calculatePercentile\<close> (advancedAnalytics.ts):
  \<^verbatim>\<open>
    if (values.length === 0) return 0;
    const sorted = [...values].sort((a, b) => a - b);
    const index = Math.ceil((percentile / 100) * sorted.length) - 1;
    return sorted[Math.max(0, index)];
  \<close>
  The values are finite numbers. The spread makes a copy, so the caller's array is not
  touched and the model is a pure function of the values. The length of an array is an
  integer below \<open>2 ^ 32\<close>, a double.
\<close>

definition AdvancedAnalytics_calculatePercentile :: "real list \<Rightarrow> real \<Rightarrow> real option" where
  "AdvancedAnalytics_calculatePercentile values percentile =
     (if length values = 0 then Some 0
      else let sorted = sort values;
               index = js_sub (js_ceil (js_mul (js_div (Fin percentile) (Fin 100))
                                               (Fin (real (length sorted))))) (Fin 1)
           in at_index sorted (js_max (Fin 0) index))"

text \<open>
  \<^verbatim>\<open>MetricsAggregator.calculatePercentile\<close> (metricsAggregator.ts):
  \<^verbatim>\<open>
    if (values.length === 0) return 0;
    const sorted = values.sort((a, b) => a - b);
    const index = Math.ceil((percentile / 100) * sorted.length) - 1;
    return sorted[Math.max(0, index)];
  \<close>
  \<^verbatim>\<open>Array.prototype.sort\<close> sorts the array it is called on and returns that same
  array, so the caller's array is part of the effect: the model returns the value and the
  caller's array as it is after the call.
\<close>

definition MetricsAggregator_calculatePercentile ::
    "real list \<Rightarrow> real \<Rightarrow> real option \<times> real list" where
  "MetricsAggregator_calculatePercentile values percentile =
     (if length values = 0 then (Some 0, values)
      else let sorted = sort values;
               index = js_sub (js_ceil (js_mul (js_div (Fin percentile) (Fin 100))
                                               (Fin (real (length sorted))))) (Fin 1)
           in (at_index sorted (js_max (Fin 0) index), sorted))"

text \<open>
  The nearest-rank percentile in the words of the specification, over the real numbers:
  \<open>0\<close> on empty input, otherwise the element of an ascending-sorted copy at index
  \<open>ceil(p/100 \<times> n) - 1\<close>, clamped to \<open>[0, n-1]\<close>.
\<close>

definition nearest_rank_index :: "nat \<Rightarrow> real \<Rightarrow> int" where
  "nearest_rank_index n p = min (int n - 1) (max 0 (\<lceil>(p / 100) * real n\<rceil> - 1))"

definition nearest_rank_spec :: "real list \<Rightarrow> real \<Rightarrow> real" where
  "nearest_rank_spec values p =
     (let n = length values
      in if n = 0 then 0 else sort values ! nat (nearest_rank_index n p))"

text \<open>
  The rank \<open>ceil(p/100 \<times> n)\<close> as the three percentile functions of the source compute
  it, in double arithmetic: the quotient is rounded, and then the product.
\<close>

definition double_rank :: "real \<Rightarrow> nat \<Rightarrow> int" where
  "double_rank p n = \<lceil>round_double (round_double (p / 100) * real n)\<rceil>"

text \<open>The numbers from 1 to 25, for the examples.\<close>

definition first_25 :: "real list" where
  "first_25 = [1, 2, 3, 4, 5, 6, 7, 8, 9, 10, 11, 12, 13, 14, 15, 16, 17, 18, 19, 20,
               21, 22, 23, 24, 25]"

subsection \<open>Monte Carlo delivery forecast\<close>

text \<open>
  The functions of \<^verbatim>\<open>Math\<close> whose results ECMAScript leaves to the implementation
  are parameters of the model.
\<close>

record mathlib =
  math_log :: "jsnum \<Rightarrow> jsnum"
  math_sqrt :: "jsnum \<Rightarrow> jsnum"
  math_cos :: "jsnum \<Rightarrow> jsnum"
  math_pow :: "jsnum \<Rightarrow> jsnum \<Rightarrow> jsnum"

text \<open>\<^verbatim>\<open>Math.PI\<close>, the double next to \<open>\<pi>\<close>: \<open>3.141592653589793\<close>.\<close>

definition js_PI :: jsnum where
  "js_PI = Fin (884279719003555 / 281474976710656)"

text \<open>
  \<^verbatim>\<open>DeploymentMetricsCollector.normalRandom\<close>:
  \<^verbatim>\<open>
    const u1 = Math.random();
    const u2 = Math.random();
    const z0 = Math.sqrt(-2 * Math.log(u1)) * Math.cos(2 * Math.PI * u2);
    return mean + z0 * stdDev;
  \<close>
  The two values \<^verbatim>\<open>Math.random()\<close> returns, numbers from \<open>0\<close> up to but not including
  \<open>1\<close>, are an input of the model (the pair \<open>u\<close>).
\<close>

definition normalRandom :: "mathlib \<Rightarrow> jsnum \<Rightarrow> jsnum \<Rightarrow> real \<times> real \<Rightarrow> jsnum" where
  "normalRandom M mean stdDev u =
     (let u1 = Fin (fst u); u2 = Fin (snd u);
          z0 = js_mul (math_sqrt M (js_mul (Fin (- 2)) (math_log M u1)))
                      (math_cos M (js_mul (js_mul (Fin 2) js_PI) u2))
      in js_add mean (js_mul z0 stdDev))"

text \<open>
  One trial of \<^verbatim>\<open>runMonteCarloSimulation\<close>, the inner loop:
  \<^verbatim>\<open>
    let work = remainingWork;
    let sprints = 0;
    while (work > 0) {
      const velocity = this.normalRandom(avgVelocity, stdDev);
      work -= Math.max(0, velocity);
      sprints++;
      if (sprints > 100) break;
    }
    results.push(sprints);
  \<close>
  \<open>rnd k\<close> is the pair of random values drawn in the call of \<^verbatim>\<open>normalRandom\<close> made
  when the counter is \<open>k\<close>. The loop is written as it stands, with no measure built in:
  \<open>None\<close> would be a loop that never leaves.
\<close>

partial_function (option) trialLoop ::
    "mathlib \<Rightarrow> (nat \<Rightarrow> real \<times> real) \<Rightarrow> jsnum \<Rightarrow> jsnum \<Rightarrow> jsnum \<Rightarrow> nat \<Rightarrow> nat option" where
  "trialLoop M rnd avgVelocity stdDev work sprints =
     (if js_less (Fin 0) work then
        (let velocity = normalRandom M avgVelocity stdDev (rnd sprints);
             work' = js_sub work (js_max (Fin 0) velocity);
             sprints' = sprints + 1
         in if sprints' > 100 then Some sprints'
            else trialLoop M rnd avgVelocity stdDev work' sprints')
      else Some sprints)"

text \<open>
  The work left after \<open>n\<close> sprints of a trial: the value of \<^verbatim>\<open>work\<close> after \<open>n\<close> rounds
  of the loop body.
\<close>

fun workAfter :: "mathlib \<Rightarrow> (nat \<Rightarrow> real \<times> real) \<Rightarrow> jsnum \<Rightarrow> jsnum \<Rightarrow> jsnum \<Rightarrow> nat \<Rightarrow> jsnum" where
  "workAfter M rnd avgVelocity stdDev work 0 = work"
| "workAfter M rnd avgVelocity stdDev work (Suc n) =
     js_sub (workAfter M rnd avgVelocity stdDev work n)
            (js_max (Fin 0) (normalRandom M avgVelocity stdDev (rnd n)))"

text \<open>
  The outer loop \<^verbatim>\<open>for (let i = 0; i < iterations; i++)\<close> runs the trials in order and
  pushes each count; \<^verbatim>\<open>results.sort((a, b) => a - b)\<close> is returned. \<open>rand i\<close> holds the
  random draws of trial \<open>i\<close>.
\<close>

fun runTrials :: "(nat \<Rightarrow> nat option) \<Rightarrow> nat list \<Rightarrow> nat list option" where
  "runTrials trial [] = Some []"
| "runTrials trial (i # is) =
     (case trial i of None \<Rightarrow> None
      | Some sprints \<Rightarrow> (case runTrials trial is of None \<Rightarrow> None
          | Some results \<Rightarrow> Some (sprints # results)))"

definition runMonteCarloSimulation ::
    "mathlib \<Rightarrow> (nat \<Rightarrow> nat \<Rightarrow> real \<times> real) \<Rightarrow> jsnum \<Rightarrow> jsnum \<Rightarrow> jsnum \<Rightarrow> nat
      \<Rightarrow> nat list option" where
  "runMonteCarloSimulation M rand remainingWork avgVelocity stdDev iterations =
     map_option sort
       (runTrials (\<lambda>i. trialLoop M (rand i) avgVelocity stdDev remainingWork 0) [0..<iterations])"

text \<open>
  \<^verbatim>\<open>DeploymentMetricsCollector.getPercentile\<close>: no check for the empty array and no
  sort (the caller passes the sorted counts).
  \<^verbatim>\<open>
    const index = Math.ceil((percentile / 100) * sortedValues.length) - 1;
    return sortedValues[Math.max(0, index)];
  \<close>
\<close>

definition getPercentile :: "nat list \<Rightarrow> jsnum \<Rightarrow> nat option" where
  "getPercentile sortedValues percentile =
     (let index = js_sub (js_ceil (js_mul (js_div percentile (Fin 100))
                                          (Fin (real (length sortedValues))))) (Fin 1)
      in at_index sortedValues (js_max (Fin 0) index))"

text \<open>
  \<^verbatim>\<open>DeploymentMetricsCollector.calculateStdDev\<close>: population standard deviation.
  \<^verbatim>\<open>
    const avg = values.reduce((a, b) => a + b, 0) / values.length;
    const squaredDiffs = values.map(v => Math.pow(v - avg, 2));
    const variance = squaredDiffs.reduce((a, b) => a + b, 0) / values.length;
    return Math.sqrt(variance);
  \<close>
\<close>

definition calculateStdDev :: "mathlib \<Rightarrow> jsnum list \<Rightarrow> jsnum" where
  "calculateStdDev M values =
     (let avg = js_div (js_sum values) (Fin (real (length values)));
          squaredDiffs = map (\<lambda>v. math_pow M (js_sub v avg) (Fin 2)) values;
          variance = js_div (js_sum squaredDiffs) (Fin (real (length values)))
      in math_sqrt M variance)"

text \<open>
  \<^verbatim>\<open>DeploymentMetricsCollector.predictDelivery\<close>, from the velocities to the three
  sprint counts. \<open>iterationVelocities\<close> are the per-iteration numbers of the analytics
  query (\<^verbatim>\<open>TotalPoints || 0\<close> or \<^verbatim>\<open>ItemCount || 0\<close>); only the positive ones are
  kept, and \<open>20\<close> is the default when none is.
  \<^verbatim>\<open>
    if (velocity > 0) velocities.push(velocity);  ...
    if (velocities.length === 0) velocities.push(20);
    const avgVelocity = velocities.reduce((a, b) => a + b, 0) / velocities.length;
    const stdDev = this.calculateStdDev(velocities);
    const simulations = this.runMonteCarloSimulation(remainingWork, avgVelocity, stdDev, 1000);
    const optimistic = this.getPercentile(simulations, 100 - confidenceLevel);
    const likely = this.getPercentile(simulations, 50);
    const pessimistic = this.getPercentile(simulations, confidenceLevel);
  \<close>
  The result is the triple (optimistic, likely, pessimistic); the conversion to calendar
  dates and the risk texts that follow in the source are not part of the model.
\<close>

definition predictDelivery_sprints ::
    "mathlib \<Rightarrow> (nat \<Rightarrow> nat \<Rightarrow> real \<times> real) \<Rightarrow> jsnum \<Rightarrow> real list \<Rightarrow> jsnum
      \<Rightarrow> (nat option \<times> nat option \<times> nat option) option" where
  "predictDelivery_sprints M rand remainingWork iterationVelocities confidenceLevel =
     (let found = filter (\<lambda>velocity. velocity > 0) iterationVelocities;
          velocities = map Fin (if length found = 0 then found @ [20] else found);
          avgVelocity = js_div (js_sum velocities) (Fin (real (length velocities)));
          stdDev = calculateStdDev M velocities
      in case runMonteCarloSimulation M rand remainingWork avgVelocity stdDev 1000 of
           None \<Rightarrow> None
         | Some simulations \<Rightarrow>
             Some (getPercentile simulations (js_sub (Fin 100) confidenceLevel),
                   getPercentile simulations (Fin 50),
                   getPercentile simulations confidenceLevel))"

text \<open>
  The sorted sprint counts of the thousand trials that \<^verbatim>\<open>predictDelivery\<close> runs (its
  \<^verbatim>\<open>simulations\<close>).
\<close>

definition forecast_counts ::
    "mathlib \<Rightarrow> (nat \<Rightarrow> nat \<Rightarrow> real \<times> real) \<Rightarrow> jsnum \<Rightarrow> real list \<Rightarrow> nat list option" where
  "forecast_counts M rand remainingWork iterationVelocities =
     (let found = filter (\<lambda>velocity. velocity > 0) iterationVelocities;
          velocities = map Fin (if length found = 0 then found @ [20] else found);
          avgVelocity = js_div (js_sum velocities) (Fin (real (length velocities)));
          stdDev = calculateStdDev M velocities
      in runMonteCarloSimulation M rand remainingWork avgVelocity stdDev 1000)"

text \<open>
  The ordering \<open>optimistic \<le> likely \<le> pessimistic\<close> of a forecast; a count that is
  \<^verbatim>\<open>undefined\<close> is in no order with a number (in JavaScript both \<^verbatim>\<open>x <= undefined\<close> and
  \<^verbatim>\<open>undefined <= x\<close> are false).
\<close>

fun forecast_ordered :: "nat option \<times> nat option \<times> nat option \<Rightarrow> bool" where
  "forecast_ordered (Some optimistic, Some likely, Some pessimistic) =
     (optimistic \<le> likely \<and> likely \<le> pessimistic)"
| "forecast_ordered _ = False"

text \<open>
  The round at which a trial leaves its loop, in words: the first round \<open>k\<close> at which the
  work left is not above \<open>0\<close>, and the round \<open>101\<close> when there is none up to \<open>100\<close>.
\<close>

definition first_exit :: "(nat \<Rightarrow> jsnum) \<Rightarrow> nat \<Rightarrow> bool" where
  "first_exit work s =
     ((\<forall>k < s. js_less (Fin 0) (work k)) \<and> (s = 101 \<or> (s \<le> 100 \<and> \<not> js_less (Fin 0) (work s))))"

text \<open>
  A library for the examples: the values of \<^verbatim>\<open>Math.log\<close>, \<^verbatim>\<open>Math.sqrt\<close>, \<^verbatim>\<open>Math.cos\<close>
  and \<^verbatim>\<open>Math.pow\<close> at the arguments the examples use (\<open>log 0 = -\<infinity>\<close>,
  \<open>log 0.5 = -0.6931471805599453\<close>, \<open>sqrt 1.3862943611198906 = 1.1774100225154747\<close>,
  \<open>cos 0 = 1\<close>, \<open>cos Math.PI = -1\<close>, a square computed as a product); every other
  argument is given NaN.
\<close>

definition example_log :: "jsnum \<Rightarrow> jsnum" where
  "example_log x =
     (if x = Fin 0 then NegInf
      else if x = Fin (1 / 2) then Fin (- (6243314768165359 / 9007199254740992))
      else NaN)"

definition example_sqrt :: "jsnum \<Rightarrow> jsnum" where
  "example_sqrt x =
     (if x = PosInf then PosInf
      else if x = Fin 0 then Fin 0
      else if x = Fin 4 then Fin 2
      else if x = Fin (6243314768165359 / 4503599627370496)
           then Fin (5302583338662979 / 4503599627370496)
      else NaN)"

definition example_cos :: "jsnum \<Rightarrow> jsnum" where
  "example_cos x =
     (if x = Fin 0 then Fin 1
      else if x = js_PI then Fin (- 1)
      else NaN)"

definition example_pow :: "jsnum \<Rightarrow> jsnum \<Rightarrow> jsnum" where
  "example_pow x y = (if y = Fin 2 then js_mul x x else NaN)"

definition example_math :: mathlib where
  "example_math = \<lparr>math_log = example_log, math_sqrt = example_sqrt,
     math_cos = example_cos, math_pow = example_pow\<rparr>"

text \<open>
  Sequences of random draws for the examples. With \<open>u1 = 0.5\<close> and \<open>u2 = 0\<close> the normal
  deviate \<open>z0\<close> is \<open>1.1774100225154747\<close>; with \<open>u1 = 0\<close> it is infinite, \<open>+\<infinity>\<close> for
  \<open>u2 = 0\<close> and \<open>-\<infinity>\<close> for \<open>u2 = 0.5\<close>. In \<open>draws_mixed\<close> the first hundred trials
  draw \<open>(0, 0)\<close> and the others \<open>(0, 0.5)\<close>.
\<close>

definition draws_half :: "nat \<Rightarrow> nat \<Rightarrow> real \<times> real" where
  "draws_half i j = (1 / 2, 0)"

definition draws_zero :: "nat \<Rightarrow> nat \<Rightarrow> real \<times> real" where
  "draws_zero i j = (0, 0)"

definition draws_mixed :: "nat \<Rightarrow> nat \<Rightarrow> real \<times> real" where
  "draws_mixed i j = (if i < 100 then (0, 0) else (0, 1 / 2))"

subsection \<open>Trend classification\<close>

datatype direction = Increasing | Stable | Decreasing

text \<open>
  \<^verbatim>\<open>AdvancedAnalyticsClient.calculateAverage\<close>:
  \<^verbatim>\<open>
    if (values.length === 0) return 0;
    return values.reduce((a, b) => a + b, 0) / values.length;
  \<close>
\<close>

definition calculateAverage :: "jsnum list \<Rightarrow> jsnum" where
  "calculateAverage values =
     (if length values = 0 then Fin 0
      else js_div (js_sum values) (Fin (real (length values))))"

text \<open>
  \<^verbatim>\<open>AdvancedAnalyticsClient.calculateFailureTrend\<close>; a row of \<open>data\<close> is the pair
  (\<^verbatim>\<open>BugCount\<close>, \<^verbatim>\<open>TotalCount\<close>).
  \<^verbatim>\<open>
    if (data.length < 2) return 'stable';
    const rates = data.map((d: any) => (d.BugCount / d.TotalCount) * 100);
    const firstHalf = rates.slice(0, Math.floor(rates.length / 2));
    const secondHalf = rates.slice(Math.floor(rates.length / 2));
    const firstAvg = this.calculateAverage(firstHalf);
    const secondAvg = this.calculateAverage(secondHalf);
    if (secondAvg > firstAvg * 1.1) return 'increasing';
    if (secondAvg < firstAvg * 0.9) return 'decreasing';
    return 'stable';
  \<close>
  The literals \<^verbatim>\<open>1.1\<close> and \<^verbatim>\<open>0.9\<close> are the doubles next to these decimals.
  \<^verbatim>\<open>Math.floor(n / 2)\<close> of a length \<open>n\<close> is \<open>n div 2\<close>.
\<close>

definition failure_rates :: "(real \<times> real) list \<Rightarrow> jsnum list" where
  "failure_rates data = map (\<lambda>d. js_mul (js_div (Fin (fst d)) (Fin (snd d))) (Fin 100)) data"

definition calculateFailureTrend :: "(real \<times> real) list \<Rightarrow> direction" where
  "calculateFailureTrend data =
     (if length data < 2 then Stable
      else let rates = failure_rates data;
               firstHalf = take (length rates div 2) rates;
               secondHalf = drop (length rates div 2) rates;
               firstAvg = calculateAverage firstHalf;
               secondAvg = calculateAverage secondHalf
           in if js_less (js_mul firstAvg (fl (11 / 10))) secondAvg then Increasing
              else if js_less secondAvg (js_mul firstAvg (fl (9 / 10))) then Decreasing
              else Stable)"

text \<open>
  \<^verbatim>\<open>calculateTrend\<close> of testConnection.ts, on the values of the data points
  (\<^verbatim>\<open>dataPoints.map(d => d.value)\<close>):
  \<^verbatim>\<open>
    if (dataPoints.length < 2) return { direction: 'stable', average: 0, stdDev: 0 };
    const average = values.reduce((a, b) => a + b, 0) / values.length;
    const squaredDiffs = values.map(v => Math.pow(v - average, 2));
    const variance = squaredDiffs.reduce((a, b) => a + b, 0) / values.length;
    const stdDev = Math.sqrt(variance);
    const firstHalf = values.slice(0, Math.floor(values.length / 2));
    const secondHalf = values.slice(Math.floor(values.length / 2));
    const firstAvg = firstHalf.reduce((a, b) => a + b, 0) / firstHalf.length;
    const secondAvg = secondHalf.reduce((a, b) => a + b, 0) / secondHalf.length;
    const change = (secondAvg - firstAvg) / firstAvg;
    if (change > 0.1) direction = 'increasing';
    else if (change < -0.1) direction = 'decreasing';
    else direction = 'stable';
    return { direction, average, stdDev };
  \<close>
\<close>

record trend =
  direction :: direction
  average :: jsnum
  stdDev :: jsnum

definition calculateTrend :: "mathlib \<Rightarrow> real list \<Rightarrow> trend" where
  "calculateTrend M dataPoints =
     (if length dataPoints < 2 then \<lparr>direction = Stable, average = Fin 0, stdDev = Fin 0\<rparr>
      else let values = map Fin dataPoints;
               average = js_div (js_sum values) (Fin (real (length values)));
               squaredDiffs = map (\<lambda>v. math_pow M (js_sub v average) (Fin 2)) values;
               variance = js_div (js_sum squaredDiffs) (Fin (real (length values)));
               stdDev = math_sqrt M variance;
               firstHalf = take (length values div 2) values;
               secondHalf = drop (length values div 2) values;
               firstAvg = js_div (js_sum firstHalf) (Fin (real (length firstHalf)));
               secondAvg = js_div (js_sum secondHalf) (Fin (real (length secondHalf)));
               change = js_div (js_sub secondAvg firstAvg) firstAvg;
               direction = (if js_less (fl (1 / 10)) change then Increasing
                            else if js_less change (fl (- (1 / 10))) then Decreasing
                            else Stable)
           in \<lparr>direction = direction, average = average, stdDev = stdDev\<rparr>)"

text \<open>
  The words of the specification: the averages of the first and of the second half (the
  second half takes the extra element) as real numbers, and the three shapes of a
  sequence.
\<close>

definition first_half_avg :: "real list \<Rightarrow> real" where
  "first_half_avg vs = sum_list (take (length vs div 2) vs) / real (length vs div 2)"

definition second_half_avg :: "real list \<Rightarrow> real" where
  "second_half_avg vs = sum_list (drop (length vs div 2) vs) / real (length vs - length vs div 2)"

definition strictly_increasing :: "real list \<Rightarrow> bool" where
  "strictly_increasing vs = sorted_wrt (<) vs"

definition strictly_decreasing :: "real list \<Rightarrow> bool" where
  "strictly_decreasing vs = sorted_wrt (>) vs"

definition flat :: "real list \<Rightarrow> bool" where
  "flat vs = (vs = replicate (length vs) (hd vs))"

section \<open>Record store: the model\<close>

text \<open>
  The storage manager keeps one directory per record type under its base directory; a
  record is the file \<^verbatim>\<open><id>.json\<close>, and the file \<^verbatim>\<open>index.json\<close> of a directory maps
  keys to ids. The model keeps what the code reads and writes:
  \<^item> a payload is a JSON value (numbers in payloads are integers here);
  \<^item> a timestamp is the number of milliseconds it denotes (the source stores the ISO
    string of \<^verbatim>\<open>Date.toISOString\<close> and parses it back with \<^verbatim>\<open>new Date\<close>; dates outside
    the range of \<^verbatim>\<open>Date\<close> are not modelled);
  \<^item> a record file holds a record, or content that \<^verbatim>\<open>JSON.parse\<close> rejects;
  \<^item> the clock is an input: every operation is given the value \<open>now\<close> that
    \<^verbatim>\<open>Date.now()\<close> and \<^verbatim>\<open>new Date()\<close> return while it runs (the operations that
    make several writes are given one reading per write);
  \<^item> names of records are plain file names, and \<open>index\<close> is not one of them.
\<close>

subsection \<open>Data\<close>

datatype json =
    JNull
  | JBool bool
  | JNum int
  | JStr string
  | JArr "json list"
  | JObj "(string \<times> json) list"

datatype stype = Cache | Analysis | Report | Mapping | Session

text \<open>
  \<^verbatim>\<open>interface StoredData\<close>. The optional \<^verbatim>\<open>project\<close> is never written by the code and
  is left out; \<open>expiresAt = None\<close> is a record without the field, or with a text there
  that is not a date (the comparison with an invalid date is false).
\<close>

record StoredData =
  rec_id :: string
  rec_type :: stype
  timestamp :: int
  expiresAt :: "int option"
  metadata :: "(string \<times> json) list"
  data :: json

datatype file_content = Valid StoredData | Corrupt

text \<open>
  A directory: its record files in the order \<^verbatim>\<open>readdir\<close> lists them, and the parsed
  \<^verbatim>\<open>index.json\<close> (a missing or unreadable index file behaves as the empty object in
  both \<^verbatim>\<open>findIdByKey\<close> and \<^verbatim>\<open>updateIndex\<close>).
\<close>

record directory =
  files :: "(string \<times> file_content) list"
  index :: "(string \<times> string) list"

record storage =
  cache_dir :: directory
  analysis_dir :: directory
  report_dir :: directory
  mapping_dir :: directory
  session_dir :: directory

fun dir_of :: "storage \<Rightarrow> stype \<Rightarrow> directory" where
  "dir_of st Cache = cache_dir st"
| "dir_of st Analysis = analysis_dir st"
| "dir_of st Report = report_dir st"
| "dir_of st Mapping = mapping_dir st"
| "dir_of st Session = session_dir st"

fun set_dir :: "storage \<Rightarrow> stype \<Rightarrow> directory \<Rightarrow> storage" where
  "set_dir st Cache d = st\<lparr>cache_dir := d\<rparr>"
| "set_dir st Analysis d = st\<lparr>analysis_dir := d\<rparr>"
| "set_dir st Report d = st\<lparr>report_dir := d\<rparr>"
| "set_dir st Mapping d = st\<lparr>mapping_dir := d\<rparr>"
| "set_dir st Session d = st\<lparr>session_dir := d\<rparr>"

definition empty_directory :: directory where
  "empty_directory = \<lparr>files = [], index = []\<rparr>"

definition empty_storage :: storage where
  "empty_storage = \<lparr>cache_dir = empty_directory, analysis_dir = empty_directory,
     report_dir = empty_directory, mapping_dir = empty_directory,
     session_dir = empty_directory\<rparr>"

text \<open>
  What the code takes from its libraries and its configuration: the hexadecimal MD5 digest
  of a string (\<^verbatim>\<open>crypto.createHash('md5').update(key).digest('hex')\<close>), the length of
  the JSON text of a value (\<^verbatim>\<open>JSON.stringify(data).length\<close>), the ISO text of a time
  (\<^verbatim>\<open>toISOString\<close>), the text of a value that is used where a string is expected, and
  \<^verbatim>\<open>maxCacheAge\<close> (24 hours unless configured).
\<close>

record env =
  md5hex :: "string \<Rightarrow> string"
  jsonSize :: "json \<Rightarrow> nat"
  toISOString :: "int \<Rightarrow> string"
  toText :: "json \<Rightarrow> string"
  maxCacheAge :: int

datatype error = SessionNotFound string | TypeError

subsection \<open>Numbers as text\<close>

text \<open>The decimal text of a number, as a template literal \<^verbatim>\<open>`${n}`\<close> gives it.\<close>

function decimal :: "nat \<Rightarrow> string" where
  "decimal n = (if n < 10 then [''0123456789'' ! n]
                else decimal (n div 10) @ [''0123456789'' ! (n mod 10)])"
  by pat_completeness auto
termination
  by (relation "measure (\<lambda>n. n)") auto

definition show_int :: "int \<Rightarrow> string" where
  "show_int i = (if i < 0 then ''-'' @ decimal (nat (- i)) else decimal (nat i))"

subsection \<open>Files and the index\<close>

text \<open>
  \<^verbatim>\<open>generateId\<close>:
  \<^verbatim>\<open>
    const hash = crypto.createHash('md5').update(key).digest('hex');
    return `${hash.substring(0, 8)}-${Date.now()}`;
  \<close>
\<close>

definition generateId :: "env \<Rightarrow> string \<Rightarrow> int \<Rightarrow> string" where
  "generateId E key now = take 8 (md5hex E key) @ ''-'' @ show_int now"

definition fileExists :: "directory \<Rightarrow> string \<Rightarrow> bool" where
  "fileExists d name = (map_of (files d) name \<noteq> None)"

definition writeFile :: "storage \<Rightarrow> stype \<Rightarrow> string \<Rightarrow> file_content \<Rightarrow> storage" where
  "writeFile st ty name f =
     set_dir st ty ((dir_of st ty)\<lparr>files := AList.update name f (files (dir_of st ty))\<rparr>)"

definition unlink :: "storage \<Rightarrow> stype \<Rightarrow> string \<Rightarrow> storage" where
  "unlink st ty name =
     set_dir st ty ((dir_of st ty)\<lparr>files := AList.delete name (files (dir_of st ty))\<rparr>)"

text \<open>
  \<^verbatim>\<open>findIdByKey\<close>: \<^verbatim>\<open>return index[key] || null\<close>; an empty id is falsy.
\<close>

definition findIdByKey :: "directory \<Rightarrow> string \<Rightarrow> string option" where
  "findIdByKey d key =
     (case map_of (index d) key of
        None \<Rightarrow> None
      | Some ident \<Rightarrow> if ident = [] then None else Some ident)"

text \<open>
  \<^verbatim>\<open>updateIndex\<close>: \<^verbatim>\<open>index[key] = id\<close>, written back. The metadata argument is unused.
  The index is a plain object, so the assignment to the key \<^verbatim>\<open>__proto__\<close> goes to the
  prototype accessor, which ignores a string: no property is created and that key is never
  indexed.
\<close>

definition updateIndex ::
    "storage \<Rightarrow> stype \<Rightarrow> string \<Rightarrow> string \<Rightarrow> (string \<times> json) list \<Rightarrow> storage" where
  "updateIndex st ty ident key meta =
     set_dir st ty ((dir_of st ty)\<lparr>index :=
       (if key = ''__proto__'' then index (dir_of st ty)
        else AList.update key ident (index (dir_of st ty)))\<rparr>)"

subsection \<open>Objects\<close>

text \<open>
  An object is the list of its properties; the value of a property is that of its first
  entry (\<open>map_of\<close>). \<^verbatim>\<open>{ ...x }\<close> copies the own enumerable properties of a value: an
  array and a string spread into their positions; \<^verbatim>\<open>null\<close>, booleans and numbers have
  none. \<open>obj_assign\<close> adds properties to an object literal from left to right: a key
  that is present already keeps its place and takes the new value. (The rule of
  JavaScript that integer-like keys are listed first is not modelled.)
\<close>

fun spread :: "json \<Rightarrow> (string \<times> json) list" where
  "spread (JObj props) = AList.clearjunk props"
| "spread (JArr xs) = zip (map decimal [0..<length xs]) xs"
| "spread (JStr s) = zip (map decimal [0..<length s]) (map (\<lambda>c. JStr [c]) s)"
| "spread _ = []"

definition obj_assign :: "(string \<times> json) list \<Rightarrow> (string \<times> json) list \<Rightarrow> (string \<times> json) list" where
  "obj_assign target source = foldl (\<lambda>obj (k, v). AList.update k v obj) target source"

text \<open>
  What \<^verbatim>\<open>for (... of v)\<close> and \<^verbatim>\<open>push(...v)\<close> go through: the elements of an array, the
  characters of a string; any other value is not iterable and the statement throws a
  \<^verbatim>\<open>TypeError\<close> (\<open>None\<close> here).
\<close>

fun iterate :: "json \<Rightarrow> json list option" where
  "iterate (JArr xs) = Some xs"
| "iterate (JStr s) = Some (map (\<lambda>c. JStr [c]) s)"
| "iterate _ = None"

subsection \<open>store, retrieve, list\<close>

text \<open>
  \<^verbatim>\<open>store(type, key, data, metadata = {}, ttl?)\<close>:
  \<^verbatim>\<open>
    const id = this.generateId(key);
    const timestamp = new Date().toISOString();
    const expiresAt = ttl
      ? new Date(Date.now() + ttl).toISOString()
      : new Date(Date.now() + this.maxCacheAge).toISOString();
    const storedData = { id, type, timestamp, expiresAt,
      metadata: { ...metadata, key, size: JSON.stringify(data).length }, data };
    await fs.writeFile(filePath, JSON.stringify(storedData, null, 2));
    await this.updateIndex(type, id, key, metadata);
    return id;
  \<close>
  \<open>ttl = None\<close> is the argument left out. The test \<^verbatim>\<open>ttl ? ... : ...\<close> is on the
  truthiness of the number: \<open>0\<close> takes the second branch, like the missing argument.
\<close>

definition store ::
    "env \<Rightarrow> stype \<Rightarrow> string \<Rightarrow> json \<Rightarrow> (string \<times> json) list \<Rightarrow> int option \<Rightarrow> int \<Rightarrow> storage
      \<Rightarrow> string \<times> storage" where
  "store E ty key dat meta ttl now st =
     (let ident = generateId E key now;
          expires = (case ttl of
                       None \<Rightarrow> now + maxCacheAge E
                     | Some t \<Rightarrow> if t \<noteq> 0 then now + t else now + maxCacheAge E);
          storedData = \<lparr>rec_id = ident, rec_type = ty, timestamp = now,
            expiresAt = Some expires,
            metadata = obj_assign (obj_assign [] (spread (JObj meta)))
                         [(''key'', JStr key), (''size'', JNum (int (jsonSize E dat)))],
            data = dat\<rparr>;
          st1 = writeFile st ty ident (Valid storedData);
          st2 = updateIndex st1 ty ident key meta
      in (ident, st2))"

text \<open>
  The expiry test of \<^verbatim>\<open>retrieve\<close>, \<^verbatim>\<open>list\<close> and \<^verbatim>\<open>cleanupExpired\<close>:
  \<^verbatim>\<open>storedData.expiresAt && new Date(storedData.expiresAt) < new Date()\<close>.
\<close>

definition expired :: "StoredData \<Rightarrow> int \<Rightarrow> bool" where
  "expired sd now = (case expiresAt sd of None \<Rightarrow> False | Some e \<Rightarrow> e < now)"

text \<open>
  \<^verbatim>\<open>retrieve(type, keyOrId)\<close>:
  \<^verbatim>\<open>
    try {
      let filePath = path.join(this.baseDir, type, `${keyOrId}.json`);
      if (!await this.fileExists(filePath)) {
        const id = await this.findIdByKey(type, keyOrId);
        if (!id) return null;
        filePath = path.join(this.baseDir, type, `${id}.json`);
      }
      const content = await fs.readFile(filePath, 'utf-8');
      const storedData = JSON.parse(content) as StoredData;
      if (storedData.expiresAt && new Date(storedData.expiresAt) < new Date()) {
        await fs.unlink(filePath);
        return null;
      }
      return storedData;
    } catch (error) { return null; }
  \<close>
  A missing file (\<^verbatim>\<open>readFile\<close> throws) and unparsable content (\<^verbatim>\<open>JSON.parse\<close> throws)
  end in the \<^verbatim>\<open>catch\<close>.
\<close>

definition resolve :: "directory \<Rightarrow> string \<Rightarrow> string option" where
  "resolve d keyOrId = (if fileExists d keyOrId then Some keyOrId else findIdByKey d keyOrId)"

definition retrieve :: "stype \<Rightarrow> string \<Rightarrow> int \<Rightarrow> storage \<Rightarrow> StoredData option \<times> storage" where
  "retrieve ty keyOrId now st =
     (case resolve (dir_of st ty) keyOrId of
        None \<Rightarrow> (None, st)
      | Some name \<Rightarrow>
          (case map_of (files (dir_of st ty)) name of
             None \<Rightarrow> (None, st)
           | Some Corrupt \<Rightarrow> (None, st)
           | Some (Valid storedData) \<Rightarrow>
               if expired storedData now then (None, unlink st ty name)
               else (Some storedData, st)))"

text \<open>
  The filter of \<^verbatim>\<open>list\<close>: \<^verbatim>\<open>item.metadata[key] !== value\<close> for each entry of the
  filter. Strict equality compares primitive values by value; an array or an object read
  from a file is never the filter's own array or object.
\<close>

fun strict_equal :: "json \<Rightarrow> json \<Rightarrow> bool" where
  "strict_equal JNull JNull = True"
| "strict_equal (JBool a) (JBool b) = (a = b)"
| "strict_equal (JNum a) (JNum b) = (a = b)"
| "strict_equal (JStr a) (JStr b) = (a = b)"
| "strict_equal _ _ = False"

fun matches :: "(string \<times> json) list \<Rightarrow> (string \<times> json) list \<Rightarrow> bool" where
  "matches meta [] = True"
| "matches meta ((key, v) # rest) =
     (case map_of meta key of
        None \<Rightarrow> False
      | Some w \<Rightarrow> if strict_equal w v then matches meta rest else False)"

text \<open>
  \<^verbatim>\<open>list(type, filter?)\<close>: the loop over the names \<^verbatim>\<open>readdir\<close> returned.
  \<^verbatim>\<open>
    for (const file of files) {
      if (!file.endsWith('.json') || file === 'index.json') continue;
      try {
        const content = await fs.readFile(path.join(dir, file), 'utf-8');
        const item = JSON.parse(content) as StoredData;
        if (item.expiresAt && new Date(item.expiresAt) < new Date()) {
          await fs.unlink(path.join(dir, file));
          continue;
        }
        if (filter) { ... if (!matches) continue; }
        items.push(item);
      } catch (error) { continue; }
    }
    return items.sort((a, b) =>
      new Date(b.timestamp).getTime() - new Date(a.timestamp).getTime());
  \<close>
\<close>

fun list_loop ::
    "stype \<Rightarrow> (string \<times> json) list option \<Rightarrow> int \<Rightarrow> string list \<Rightarrow> StoredData list \<Rightarrow> storage
      \<Rightarrow> StoredData list \<times> storage" where
  "list_loop ty flt now [] items st = (items, st)"
| "list_loop ty flt now (name # names) items st =
     (case map_of (files (dir_of st ty)) name of
        None \<Rightarrow> list_loop ty flt now names items st
      | Some Corrupt \<Rightarrow> list_loop ty flt now names items st
      | Some (Valid item) \<Rightarrow>
          if expired item now then list_loop ty flt now names items (unlink st ty name)
          else (case flt of
                  None \<Rightarrow> list_loop ty flt now names (items @ [item]) st
                | Some f \<Rightarrow>
                    if matches (metadata item) f
                    then list_loop ty flt now names (items @ [item]) st
                    else list_loop ty flt now names items st))"

definition list_items ::
    "stype \<Rightarrow> (string \<times> json) list option \<Rightarrow> int \<Rightarrow> storage \<Rightarrow> StoredData list \<times> storage" where
  "list_items ty flt now st =
     (let names = map fst (files (dir_of st ty));
          (items, st') = list_loop ty flt now names [] st
      in (sort_key (\<lambda>item. - timestamp item) items, st'))"

subsection \<open>Datasets in chunks\<close>

text \<open>
  \<^verbatim>\<open>storeDataset(key, data, chunkSize = 1000, metadata = {})\<close>:
  \<^verbatim>\<open>
    const datasetId = this.generateId(`dataset-${key}`);
    const chunks: string[] = [];
    for (let i = 0; i < data.length; i += chunkSize) {
      const chunk = data.slice(i, i + chunkSize);
      const chunkId = await this.store('cache', `${key}-chunk-${i}`, chunk,
        { ...metadata, datasetId, chunkIndex: i / chunkSize,
          totalChunks: Math.ceil(data.length / chunkSize) });
      chunks.push(chunkId);
    }
    await this.store('cache', `dataset-${key}`,
      { datasetId, key, totalItems: data.length, chunkSize, chunks, metadata }, metadata);
    return datasetId;
  \<close>
  The chunk size is a natural number. The loop is written as it stands, with no measure
  built in: \<open>None\<close> is a call that does not return (with \<open>chunkSize = 0\<close> and data to
  store the loop never advances). \<open>clk k\<close> is
  the clock reading of the write number \<open>k\<close> (the chunks in order, then the manifest),
  and \<open>t0\<close> the reading of the first \<^verbatim>\<open>generateId\<close>.
\<close>

definition chunkMetadata ::
    "(string \<times> json) list \<Rightarrow> string \<Rightarrow> nat \<Rightarrow> nat \<Rightarrow> nat \<Rightarrow> (string \<times> json) list" where
  "chunkMetadata meta datasetId i chunkSize len =
     obj_assign (obj_assign [] (spread (JObj meta)))
       [(''datasetId'', JStr datasetId),
        (''chunkIndex'', JNum (int (i div chunkSize))),
        (''totalChunks'', JNum (int ((len + chunkSize - 1) div chunkSize)))]"

partial_function (option) storeChunks ::
    "env \<Rightarrow> string \<Rightarrow> json list \<Rightarrow> nat \<Rightarrow> (string \<times> json) list \<Rightarrow> string \<Rightarrow> (nat \<Rightarrow> int)
      \<Rightarrow> nat \<Rightarrow> string list \<Rightarrow> storage \<Rightarrow> (string list \<times> storage) option" where
  "storeChunks E key dat chunkSize meta datasetId clk i chunks st =
     (if i < length dat then
        (let chunk = take chunkSize (drop i dat);
             (chunkId, st') =
                store E Cache (key @ ''-chunk-'' @ decimal i) (JArr chunk)
                  (chunkMetadata meta datasetId i chunkSize (length dat))
                  None (clk (length chunks)) st
         in storeChunks E key dat chunkSize meta datasetId clk (i + chunkSize)
              (chunks @ [chunkId]) st')
      else Some (chunks, st))"

definition manifest ::
    "string \<Rightarrow> string \<Rightarrow> nat \<Rightarrow> nat \<Rightarrow> string list \<Rightarrow> (string \<times> json) list \<Rightarrow> json" where
  "manifest datasetId key totalItems chunkSize chunks meta =
     JObj [(''datasetId'', JStr datasetId), (''key'', JStr key),
           (''totalItems'', JNum (int totalItems)), (''chunkSize'', JNum (int chunkSize)),
           (''chunks'', JArr (map JStr chunks)), (''metadata'', JObj meta)]"

definition storeDataset ::
    "env \<Rightarrow> string \<Rightarrow> json list \<Rightarrow> nat \<Rightarrow> (string \<times> json) list \<Rightarrow> int \<Rightarrow> (nat \<Rightarrow> int)
      \<Rightarrow> storage \<Rightarrow> (string \<times> storage) option" where
  "storeDataset E key dat chunkSize meta t0 clk st =
     (let datasetId = generateId E (''dataset-'' @ key) t0
      in case storeChunks E key dat chunkSize meta datasetId clk 0 [] st of
           None \<Rightarrow> None
         | Some (chunks, st1) \<Rightarrow>
             (let (manifestId, st2) =
                    store E Cache (''dataset-'' @ key)
                      (manifest datasetId key (length dat) chunkSize chunks meta)
                      meta None (clk (length chunks)) st1
              in Some (datasetId, st2)))"

text \<open>
  \<^verbatim>\<open>retrieveDataset(key)\<close>:
  \<^verbatim>\<open>
    const manifest = await this.retrieve('cache', `dataset-${key}`);
    if (!manifest) return null;
    const data: any[] = [];
    for (const chunkId of manifest.data.chunks) {
      const chunk = await this.retrieve('cache', chunkId);
      if (chunk) { data.push(...chunk.data); }
    }
    return data;
  \<close>
  There is no \<^verbatim>\<open>try\<close> here: a payload without an iterable \<^verbatim>\<open>chunks\<close>, and a chunk
  whose payload is not iterable, end the call with a \<^verbatim>\<open>TypeError\<close>. A chunk id that is
  not a string is used through its text.
\<close>

definition chunksOf :: "StoredData \<Rightarrow> json list option" where
  "chunksOf m =
     (case data m of
        JObj props \<Rightarrow> (case map_of props ''chunks'' of None \<Rightarrow> None | Some v \<Rightarrow> iterate v)
      | _ \<Rightarrow> None)"

fun chunkName :: "env \<Rightarrow> json \<Rightarrow> string" where
  "chunkName E (JStr s) = s"
| "chunkName E v = toText E v"

fun loadChunks ::
    "env \<Rightarrow> int \<Rightarrow> json list \<Rightarrow> json list \<Rightarrow> storage \<Rightarrow> (error + json list option) \<times> storage" where
  "loadChunks E now [] acc st = (Inr (Some acc), st)"
| "loadChunks E now (chunkId # rest) acc st =
     (case retrieve Cache (chunkName E chunkId) now st of
        (None, st') \<Rightarrow> loadChunks E now rest acc st'
      | (Some chunk, st') \<Rightarrow>
          (case iterate (data chunk) of
             None \<Rightarrow> (Inl TypeError, st')
           | Some items \<Rightarrow> loadChunks E now rest (acc @ items) st'))"

definition retrieveDataset ::
    "env \<Rightarrow> string \<Rightarrow> int \<Rightarrow> storage \<Rightarrow> (error + json list option) \<times> storage" where
  "retrieveDataset E key now st =
     (case retrieve Cache (''dataset-'' @ key) now st of
        (None, st') \<Rightarrow> (Inr None, st')
      | (Some m, st') \<Rightarrow>
          (case chunksOf m of
             None \<Rightarrow> (Inl TypeError, st')
           | Some chunkIds \<Rightarrow> loadChunks E now chunkIds [] st'))"

subsection \<open>Sessions\<close>

text \<open>
  \<^verbatim>\<open>createSession(sessionType, initialData = {})\<close>:
  \<^verbatim>\<open>
    const sessionId = this.generateId(`session-${sessionType}`);
    await this.store('session', sessionId, { sessionId, sessionType, state: 'active',
      steps: [], data: initialData, createdAt: new Date().toISOString() }, { sessionType });
    return sessionId;
  \<close>
  The session id is the key of the record; the record gets an id of its own from
  \<^verbatim>\<open>store\<close>.
\<close>

definition createSession :: "env \<Rightarrow> string \<Rightarrow> json \<Rightarrow> int \<Rightarrow> storage \<Rightarrow> string \<times> storage" where
  "createSession E sessionType initialData now st =
     (let sessionId = generateId E (''session-'' @ sessionType) now;
          (ident, st') =
             store E Session sessionId
               (JObj [(''sessionId'', JStr sessionId), (''sessionType'', JStr sessionType),
                      (''state'', JStr ''active''), (''steps'', JArr []),
                      (''data'', initialData), (''createdAt'', JStr (toISOString E now))])
               [(''sessionType'', JStr sessionType)] None now st
      in (sessionId, st'))"

text \<open>
  \<^verbatim>\<open>updateSession(sessionId, updates)\<close>:
  \<^verbatim>\<open>
    const session = await this.retrieve('session', sessionId);
    if (!session) throw new Error(`Session ${sessionId} not found`);
    session.data = { ...session.data, ...updates, lastUpdated: new Date().toISOString() };
    const filePath = path.join(this.baseDir, 'session', `${sessionId}.json`);
    await fs.writeFile(filePath, JSON.stringify(session, null, 2));
  \<close>
  The merged record is written to the file named by the session id, whatever file
  \<^verbatim>\<open>retrieve\<close> read it from.
\<close>

definition mergeSession :: "env \<Rightarrow> StoredData \<Rightarrow> json \<Rightarrow> int \<Rightarrow> StoredData" where
  "mergeSession E session updates now =
     session\<lparr>data :=
       JObj (obj_assign (obj_assign (obj_assign [] (spread (data session))) (spread updates))
               [(''lastUpdated'', JStr (toISOString E now))])\<rparr>"

definition updateSession ::
    "env \<Rightarrow> string \<Rightarrow> json \<Rightarrow> int \<Rightarrow> storage \<Rightarrow> (error + unit) \<times> storage" where
  "updateSession E sessionId updates now st =
     (case retrieve Session sessionId now st of
        (None, st') \<Rightarrow> (Inl (SessionNotFound sessionId), st')
      | (Some session, st') \<Rightarrow>
          (Inr (), writeFile st' Session sessionId (Valid (mergeSession E session updates now))))"

subsection \<open>Words for the properties of the store\<close>

text \<open>
  A name that \<^verbatim>\<open>path.join(baseDir, type, `${name}.json`)\<close> turns into a record file of
  the directory of \<open>type\<close>: it has no path separator in it and it is not \<open>index\<close>
  (which names the index file).
\<close>

definition plain_name :: "string \<Rightarrow> bool" where
  "plain_name s = (s \<noteq> ''index'' \<and> CHR ''/'' \<notin> set s \<and> CHR 0x5C \<notin> set s)"

text \<open>The file \<open>n\<close> of a directory holds a record whose expiry has passed.\<close>

definition expired_file :: "storage \<Rightarrow> stype \<Rightarrow> int \<Rightarrow> string \<Rightarrow> bool" where
  "expired_file st ty now n =
     (case map_of (files (dir_of st ty)) n of
        Some (Valid r) \<Rightarrow> expired r now
      | _ \<Rightarrow> False)"

subsection \<open>Words for the properties of datasets\<close>

text \<open>
  The number of chunks of a dataset, \<^verbatim>\<open>Math.ceil(data.length / chunkSize)\<close>; the id that
  the write of chunk number \<open>j\<close> generates (its key ends in the offset \<open>j \<times> chunkSize\<close>,
  its clock reading is \<open>clk j\<close>); and the ids of all the writes of one
  \<^verbatim>\<open>storeDataset\<close>, the chunks in order and then the manifest.
\<close>

definition chunkCount :: "nat \<Rightarrow> nat \<Rightarrow> nat" where
  "chunkCount len chunkSize = (len + chunkSize - 1) div chunkSize"

definition chunkWriteId :: "env \<Rightarrow> string \<Rightarrow> nat \<Rightarrow> (nat \<Rightarrow> int) \<Rightarrow> nat \<Rightarrow> string" where
  "chunkWriteId E key chunkSize clk j =
     generateId E (key @ ''-chunk-'' @ decimal (j * chunkSize)) (clk j)"

definition datasetWriteIds :: "env \<Rightarrow> string \<Rightarrow> nat \<Rightarrow> nat \<Rightarrow> (nat \<Rightarrow> int) \<Rightarrow> string list" where
  "datasetWriteIds E key len chunkSize clk =
     map (chunkWriteId E key chunkSize clk) [0..<chunkCount len chunkSize] @
     [generateId E (''dataset-'' @ key) (clk (chunkCount len chunkSize))]"

text \<open>An MD5 digest in hexadecimal is 32 characters out of \<open>0-9a-f\<close>.\<close>

definition hex_digest :: "env \<Rightarrow> bool" where
  "hex_digest E = (\<forall>key. length (md5hex E key) = 32 \<and>
                          set (md5hex E key) \<subseteq> set ''0123456789abcdef'')"

text \<open>
  What a chunk contributes to a retrieved dataset when it is looked up by its file name
  alone: nothing when the file is missing, unreadable or expired, otherwise the elements
  of its payload (\<open>None\<close> when the payload is not iterable).
\<close>

definition chunkItems :: "storage \<Rightarrow> int \<Rightarrow> string \<Rightarrow> json list option" where
  "chunkItems st now name =
     (case map_of (files (cache_dir st)) name of
        Some (Valid sd) \<Rightarrow> if expired sd now then Some [] else iterate (data sd)
      | _ \<Rightarrow> Some [])"

text \<open>
  The file \<open>name\<close> of the cache holds a record with the array \<open>chunk\<close> as payload and
  \<open>e\<close> as expiry.
\<close>

definition holds_chunk :: "storage \<Rightarrow> string \<Rightarrow> json list \<Rightarrow> int \<Rightarrow> bool" where
  "holds_chunk st name chunk e =
     (case map_of (files (cache_dir st)) name of
        Some (Valid sd) \<Rightarrow> data sd = JArr chunk \<and> expiresAt sd = Some e
      | _ \<Rightarrow> False)"

subsection \<open>Examples\<close>

text \<open>
  An environment for the examples: the MD5 digests of the keys the examples use (any
  other key is given the digest of the empty string), a JSON text of two characters for
  every value, times printed as their number of milliseconds, and the default maximal
  age of 24 hours.
\<close>

definition example_md5 :: "string \<Rightarrow> string" where
  "example_md5 key =
     (if key = ''k'' then ''8ce4b16b22b58894aa86c421e8759df3''
      else if key = ''session-t'' then ''28a07e0c77d69d1c46e2306b42760070''
      else if key = ''28a07e0c-1000'' then ''55bec1bd7b85dff0527cfa4ad9f70d90''
      else if key = ''ds-chunk-0'' then ''970244797e6664e9a91842be985c4408''
      else if key = ''ds-chunk-2'' then ''eb71316e1a47ce61c833478758d8427e''
      else if key = ''dataset-ds'' then ''a690eccf288deb5e14882aea9d954f31''
      else if key = ''ds22422721-chunk-0'' then ''8e991df63ae1874ce42ea9404d40dbdb''
      else if key = ''ds22422721-chunk-2'' then ''10f93ea7eab21a7449dd27f7a37acc04''
      else if key = ''ds22422721-chunk-4'' then ''dad87afea7557c7b19bb56870c364adc''
      else if key = ''ds22422721-chunk-6'' then ''10f93ea7cb5bf1cd2546eec6eccfe7a3''
      else if key = ''dataset-ds22422721'' then ''139ffe820287e34742fbe52fa7f0d0c7''
      else ''d41d8cd98f00b204e9800998ecf8427e'')"

definition example_env :: env where
  "example_env = \<lparr>md5hex = example_md5, jsonSize = (\<lambda>v. 2), toISOString = show_int,
     toText = (\<lambda>v. []), maxCacheAge = 86400000\<rparr>"

text \<open>The store after one write with a time to live of 100 ms at time 1000.\<close>

definition stored_once :: storage where
  "stored_once = snd (store example_env Cache ''k'' (JNum 1) [] (Some 100) 1000 empty_storage)"

text \<open>
  The store after \<^verbatim>\<open>createSession('t', {initial: 'data'})\<close> at time 1000, and the record
  that call writes.
\<close>

definition session_record :: StoredData where
  "session_record =
     \<lparr>rec_id = ''55bec1bd-1000'', rec_type = Session, timestamp = 1000,
      expiresAt = Some 86401000,
      metadata = [(''sessionType'', JStr ''t''), (''key'', JStr ''28a07e0c-1000''), (''size'', JNum 2)],
      data = JObj [(''sessionId'', JStr ''28a07e0c-1000''), (''sessionType'', JStr ''t''),
                   (''state'', JStr ''active''), (''steps'', JArr []),
                   (''data'', JObj [(''initial'', JStr ''data'')]), (''createdAt'', JStr ''1000'')]\<rparr>"

definition session_created :: storage where
  "session_created =
     snd (createSession example_env ''t'' (JObj [(''initial'', JStr ''data'')]) 1000 empty_storage)"

text \<open>
  A dataset of three items stored in chunks of two under the key \<open>ds\<close>, on an empty
  store, with the writes at the times 1000, 1001 and 1002: the two chunk records, the
  manifest record and the store after the call.
\<close>

definition example_clock :: "nat \<Rightarrow> int" where
  "example_clock k = 1000 + int k"

definition chunk_record_0 :: StoredData where
  "chunk_record_0 =
     \<lparr>rec_id = ''97024479-1000'', rec_type = Cache, timestamp = 1000,
      expiresAt = Some 86401000,
      metadata = [(''datasetId'', JStr ''a690eccf-999''), (''chunkIndex'', JNum 0),
                  (''totalChunks'', JNum 2), (''key'', JStr ''ds-chunk-0''), (''size'', JNum 2)],
      data = JArr [JNum 1, JNum 2]\<rparr>"

definition chunk_record_1 :: StoredData where
  "chunk_record_1 =
     \<lparr>rec_id = ''eb71316e-1001'', rec_type = Cache, timestamp = 1001,
      expiresAt = Some 86401001,
      metadata = [(''datasetId'', JStr ''a690eccf-999''), (''chunkIndex'', JNum 1),
                  (''totalChunks'', JNum 2), (''key'', JStr ''ds-chunk-2''), (''size'', JNum 2)],
      data = JArr [JNum 3]\<rparr>"

definition manifest_record :: StoredData where
  "manifest_record =
     \<lparr>rec_id = ''a690eccf-1002'', rec_type = Cache, timestamp = 1002,
      expiresAt = Some 86401002,
      metadata = [(''key'', JStr ''dataset-ds''), (''size'', JNum 2)],
      data = JObj [(''datasetId'', JStr ''a690eccf-999''), (''key'', JStr ''ds''),
                   (''totalItems'', JNum 3), (''chunkSize'', JNum 2),
                   (''chunks'', JArr [JStr ''97024479-1000'', JStr ''eb71316e-1001'']),
                   (''metadata'', JObj [])]\<rparr>"

definition dataset_stored :: storage where
  "dataset_stored =
     (case storeDataset example_env ''ds'' [JNum 1, JNum 2, JNum 3] 2 [] 999 example_clock
             empty_storage of
        None \<Rightarrow> empty_storage
      | Some (datasetId, st) \<Rightarrow> st)"


text \<open>
  A dataset of seven items stored in chunks of two under the key \<open>ds22422721\<close>, on an
  empty store, with every write reading the same millisecond 1000 from the clock. The
  MD5 digests of the chunk keys \<open>ds22422721-chunk-2\<close> and \<open>ds22422721-chunk-6\<close> begin
  with the same eight characters \<open>10f93ea7\<close>.
\<close>

definition frozen_clock :: "nat \<Rightarrow> int" where
  "frozen_clock k = 1000"

definition seven_items :: "json list" where
  "seven_items = [JNum 0, JNum 1, JNum 2, JNum 3, JNum 4, JNum 5, JNum 6]"

definition collision_stored :: storage where
  "collision_stored =
     (case storeDataset example_env ''ds22422721'' seven_items 2 [] 1000 frozen_clock
             empty_storage of
        None \<Rightarrow> empty_storage
      | Some (datasetId, st) \<Rightarrow> st)"
section \<open>JavaScript numbers: properties\<close>

subsection \<open>The binary exponent\<close>

declare bits.simps [simp del]

lemma bits_pos: "0 < k \<Longrightarrow> 1 \<le> bits k"
proof -
  assume k: "0 < k"
  have "0 \<le> bits j" for j
    by (induction j rule: bits.induct) (subst bits.simps, simp)
  then show ?thesis using k by (subst bits.simps) (simp add: add_increasing)
qed

lemma bits_bounds:
  "0 < k \<Longrightarrow> 2 ^ nat (bits k - 1) \<le> k \<and> k < 2 ^ nat (bits k)"
proof (induction k rule: bits.induct)
  case (1 k)
  show ?case
  proof (cases "k = 1")
    case True
    have "bits 1 = 1" by (simp add: bits.simps)
    then show ?thesis using True by simp
  next
    case False
    with "1.prems" have k2: "2 \<le> k" by simp
    then have h: "0 < k div 2" by simp
    let ?b = "bits (k div 2)"
    have b1: "1 \<le> ?b" using bits_pos[OF h] .
    have bk: "bits k = 1 + ?b" using k2 by (subst bits.simps) simp
    from "1.IH" h k2 have ih: "2 ^ nat (?b - 1) \<le> k div 2" "k div 2 < 2 ^ nat ?b" by auto
    have e1: "nat (bits k - 1) = Suc (nat (?b - 1))" using bk b1 by simp
    have e2: "nat (bits k) = Suc (nat ?b)" using bk b1 by simp
    have "(2::int) ^ nat (bits k - 1) = 2 * 2 ^ nat (?b - 1)" by (simp add: e1)
    also have "\<dots> \<le> 2 * (k div 2)" using ih(1) by simp
    also have "\<dots> \<le> k" by simp
    finally have lo: "2 ^ nat (bits k - 1) \<le> k" .
    have "k div 2 + 1 \<le> 2 ^ nat ?b" using ih(2) by simp
    then have "2 * (k div 2) + 2 \<le> 2 ^ nat (bits k)" by (simp add: e2)
    moreover have "k < 2 * (k div 2) + 2" by presburger
    ultimately have hi: "k < 2 ^ nat (bits k)" by linarith
    show ?thesis using lo hi by simp
  qed
qed

lemma two_powi_nat: "0 \<le> e \<Longrightarrow> (2::real) powi e = of_int (2 ^ nat e)"
  by (simp add: power_int_def)

lemma ilog2_bounds:
  assumes "0 < x"
  shows "2 powi ilog2 x \<le> x" and "x < 2 powi (ilog2 x + 1)"
proof -
  have "2 powi ilog2 x \<le> x \<and> x < 2 powi (ilog2 x + 1)"
  proof (cases "1 \<le> x")
    case True
    let ?n = "\<lfloor>x\<rfloor>"
    have n: "0 < ?n" using True by simp
    have b: "1 \<le> bits ?n" using bits_pos[OF n] .
    have il: "ilog2 x = bits ?n - 1" using True by (simp add: ilog2_def)
    from bits_bounds[OF n] have lo: "2 ^ nat (bits ?n - 1) \<le> ?n" and hi: "?n < 2 ^ nat (bits ?n)"
      by auto
    have "2 powi (bits ?n - 1) = real_of_int (2 ^ nat (bits ?n - 1))"
      using b by (simp add: two_powi_nat)
    also have "\<dots> \<le> of_int ?n" using lo by (simp only: of_int_le_iff)
    also have "\<dots> \<le> x" by simp
    finally have 1: "2 powi ilog2 x \<le> x" by (simp add: il)
    have "?n + 1 \<le> 2 ^ nat (bits ?n)" using hi by simp
    then have "real_of_int (?n + 1) \<le> real_of_int (2 ^ nat (bits ?n))" by (simp only: of_int_le_iff)
    moreover have "x < real_of_int (?n + 1)" by linarith
    ultimately have "x < real_of_int (2 ^ nat (bits ?n))" by linarith
    also have "\<dots> = 2 powi (bits ?n)" using b by (simp add: two_powi_nat)
    finally have 2: "x < 2 powi (ilog2 x + 1)" by (simp add: il)
    show ?thesis using 1 2 by simp
  next
    case False
    then have x1: "x < 1" by simp
    let ?y = "1 / x"
    let ?m = "\<lceil>?y\<rceil> - 1"
    have y1: "1 < ?y" using assms x1 by simp
    then have m: "0 < ?m" by linarith
    have my: "real_of_int ?m < ?y" "?y \<le> real_of_int ?m + 1" by linarith+
    let ?k = "bits ?m"
    have k1: "1 \<le> ?k" using bits_pos[OF m] .
    have il: "ilog2 x = - ?k" using False by (simp add: ilog2_def)
    from bits_bounds[OF m] have lo: "2 ^ nat (?k - 1) \<le> ?m" and hi: "?m < 2 ^ nat ?k" by auto
    have "?m + 1 \<le> 2 ^ nat ?k" using hi by simp
    then have "real_of_int (?m + 1) \<le> real_of_int (2 ^ nat ?k)" by (simp only: of_int_le_iff)
    then have "real_of_int ?m + 1 \<le> real_of_int (2 ^ nat ?k)" by (simp only: of_int_add of_int_1)
    with my(2) have "?y \<le> real_of_int (2 ^ nat ?k)" by (rule order_trans)
    also have "\<dots> = 2 powi ?k" using k1 by (simp add: two_powi_nat)
    finally have yk: "?y \<le> 2 powi ?k" .
    have "real_of_int (2 ^ nat (?k - 1)) \<le> real_of_int ?m" using lo by (simp only: of_int_le_iff)
    then have "real_of_int (2 ^ nat (?k - 1)) < ?y" using my(1) by linarith
    moreover have "real_of_int (2 ^ nat (?k - 1)) = 2 powi (?k - 1)" using k1 by (simp add: two_powi_nat)
    ultimately have ky: "2 powi (?k - 1) < ?y" by simp
    have p: "0 < (2::real) powi ?k" "0 < (2::real) powi (?k - 1)" by simp_all
    have 1: "2 powi (- ?k) \<le> x"
    proof -
      have "1 \<le> x * 2 powi ?k" using yk assms by (simp add: pos_divide_le_eq mult.commute)
      then have "1 / (2 powi ?k) \<le> x" using p(1) by (simp add: pos_divide_le_eq)
      then show ?thesis by (simp only: power_int_minus_divide)
    qed
    have 2: "x < 2 powi (- ?k + 1)"
    proof -
      have "x * 2 powi (?k - 1) < 1" using ky assms by (simp add: pos_less_divide_eq mult.commute)
      then have "x < 1 / (2 powi (?k - 1))" using p(2) by (simp add: pos_less_divide_eq)
      moreover have "1 / (2 powi (?k - 1)) = (2::real) powi (- (?k - 1))"
        by (simp only: power_int_minus_divide)
      moreover have "- (?k - 1) = - ?k + 1" by simp
      ultimately show ?thesis by simp
    qed
    show ?thesis using 1 2 by (simp add: il)
  qed
  then show "2 powi ilog2 x \<le> x" and "x < 2 powi (ilog2 x + 1)" by simp_all
qed

lemma ilog2_unique:
  assumes "0 < x" and "2 powi e \<le> x" and "x < 2 powi (e + 1)"
  shows "ilog2 x = e"
proof -
  note b = ilog2_bounds[OF assms(1)]
  have "(2::real) powi ilog2 x < 2 powi (e + 1)" using b(1) assms(3) by linarith
  then have 1: "ilog2 x < e + 1"
    by (metis not_less power_int_increasing one_le_numeral)
  have "(2::real) powi e < 2 powi (ilog2 x + 1)" using b(2) assms(2) by linarith
  then have 2: "e < ilog2 x + 1"
    by (metis not_less power_int_increasing one_le_numeral)
  show ?thesis using 1 2 by simp
qed

lemma ilog2_mono:
  assumes "0 < x" and "x \<le> y"
  shows "ilog2 x \<le> ilog2 y"
proof -
  have y: "0 < y" using assms by simp
  have "(2::real) powi ilog2 x < 2 powi (ilog2 y + 1)"
    using ilog2_bounds(1)[OF assms(1)] ilog2_bounds(2)[OF y] assms(2) by linarith
  then have "ilog2 x < ilog2 y + 1"
    by (metis not_less power_int_increasing one_le_numeral)
  then show ?thesis by simp
qed

subsection \<open>Rounding to the nearest integer\<close>

lemma rne_of_int [simp]: "rne (of_int k) = k"
  by (simp add: rne_def)

lemma rne_error: "\<bar>of_int (rne r) - r\<bar> \<le> 1 / 2"
proof -
  have "0 \<le> r - of_int \<lfloor>r\<rfloor>" "r - of_int \<lfloor>r\<rfloor> < 1" by linarith+
  then show ?thesis by (auto simp: rne_def Let_def)
qed

lemma rne_between: "\<lfloor>r\<rfloor> \<le> rne r" "rne r \<le> \<lfloor>r\<rfloor> + 1"
  by (simp_all add: rne_def Let_def)

lemma rne_mono:
  assumes "r \<le> s"
  shows "rne r \<le> rne s"
proof (cases "\<lfloor>r\<rfloor> = \<lfloor>s\<rfloor>")
  case True
  have "r - of_int \<lfloor>r\<rfloor> \<le> s - of_int \<lfloor>r\<rfloor>" using assms by simp
  then show ?thesis using True by (auto simp: rne_def Let_def)
next
  case False
  have "\<lfloor>r\<rfloor> \<le> \<lfloor>s\<rfloor>" using assms by (rule floor_mono)
  then have "\<lfloor>r\<rfloor> + 1 \<le> \<lfloor>s\<rfloor>" using False by simp
  then show ?thesis using rne_between(2)[of r] rne_between(1)[of s] by linarith
qed

lemma rne_minus: "rne (- r) = - rne r"
proof (cases "of_int \<lfloor>r\<rfloor> = r")
  case True
  then obtain k where "r = of_int k" by metis
  then show ?thesis by (simp flip: of_int_minus)
next
  case False
  have f: "\<lfloor>- r\<rfloor> = - \<lfloor>r\<rfloor> - 1" using False by (simp add: ceiling_altdef floor_minus)
  have d: "0 < r - of_int \<lfloor>r\<rfloor>" "r - of_int \<lfloor>r\<rfloor> < 1" using False by linarith+
  show ?thesis
    unfolding rne_def Let_def f using d by (auto simp: algebra_simps)
qed

lemma rne_zero [simp]: "rne 0 = 0"
  using rne_of_int[of 0] by simp

subsection \<open>Rounding is monotone\<close>

lemma ulp_exponent_minus [simp]: "ulp_exponent (- x) = ulp_exponent x"
  by (simp add: ulp_exponent_def)

lemma round_double_zero [simp]: "round_double 0 = 0"
  by (simp add: round_double_def)

lemma round_double_minus: "round_double (- x) = - round_double x"
  by (simp add: round_double_def rne_minus)

lemma round_double_nonneg:
  assumes "0 \<le> x"
  shows "0 \<le> round_double x"
proof -
  have "0 \<le> x / 2 powi ulp_exponent x" using assms by simp
  then have "rne 0 \<le> rne (x / 2 powi ulp_exponent x)" by (rule rne_mono)
  then show ?thesis by (simp add: round_double_def)
qed

lemma ulp_exponent_ge: "- 1074 \<le> ulp_exponent x"
  by (simp add: ulp_exponent_def)

lemma below_next_binade:
  assumes "0 < x"
  shows "x < 2 powi (ulp_exponent x + 53)"
proof -
  have "ilog2 x + 1 \<le> ulp_exponent x + 53" using assms by (simp add: ulp_exponent_def)
  then have "(2::real) powi (ilog2 x + 1) \<le> 2 powi (ulp_exponent x + 53)"
    by (intro power_int_increasing) simp_all
  then show ?thesis using ilog2_bounds(2)[OF assms] by linarith
qed

lemma above_binade:
  assumes "0 < x" and "- 1022 \<le> ilog2 x"
  shows "2 powi (ulp_exponent x + 52) \<le> x"
proof -
  have "ulp_exponent x + 52 = ilog2 x" using assms by (simp add: ulp_exponent_def)
  then show ?thesis using ilog2_bounds(1)[OF assms(1)] by simp
qed

lemma scaled:
  "x / 2 powi e \<le> 2 powi k \<longleftrightarrow> x \<le> 2 powi (e + k)"
  "2 powi k \<le> x / 2 powi e \<longleftrightarrow> 2 powi (e + k) \<le> x"
  "x / 2 powi e < 2 powi k \<longleftrightarrow> x < 2 powi (e + k)"
  for x :: real
  by (simp_all add: power_int_add pos_divide_le_eq pos_le_divide_eq pos_divide_less_eq mult.commute)

lemma round_double_upper:
  assumes "0 < x"
  shows "round_double x \<le> 2 powi (ulp_exponent x + 53)"
proof -
  let ?e = "ulp_exponent x"
  define N where "N = rne (x / 2 powi ?e)"
  have rd: "round_double x = of_int N * 2 powi ?e" using assms by (simp add: round_double_def N_def)
  have "x / 2 powi ?e < 2 powi 53" using below_next_binade[OF assms] by (simp only: scaled)
  then have "x / 2 powi ?e \<le> of_int (2 ^ 53)" by simp
  then have "N \<le> rne (of_int (2 ^ 53))" unfolding N_def by (rule rne_mono)
  then have "N \<le> 2 ^ 53" by (simp only: rne_of_int)
  then have N: "real_of_int N \<le> real_of_int (2 ^ 53)" by (simp only: of_int_le_iff)
  have "real_of_int N * 2 powi ?e \<le> real_of_int (2 ^ 53) * 2 powi ?e"
    using N by (intro mult_right_mono) simp_all
  also have "\<dots> = 2 powi (?e + 53)" by (simp add: power_int_add)
  finally show ?thesis by (simp only: rd)
qed

lemma round_double_lower:
  assumes "0 < x" and "- 1022 \<le> ilog2 x"
  shows "2 powi (ulp_exponent x + 52) \<le> round_double x"
proof -
  let ?e = "ulp_exponent x"
  define N where "N = rne (x / 2 powi ?e)"
  have rd: "round_double x = of_int N * 2 powi ?e" using assms by (simp add: round_double_def N_def)
  have "2 powi 52 \<le> x / 2 powi ?e" using above_binade[OF assms] by (simp only: scaled)
  then have "of_int (2 ^ 52) \<le> x / 2 powi ?e" by simp
  then have "rne (of_int (2 ^ 52)) \<le> N" unfolding N_def by (rule rne_mono)
  then have "2 ^ 52 \<le> N" by (simp only: rne_of_int)
  then have N: "real_of_int (2 ^ 52) \<le> real_of_int N" by (simp only: of_int_le_iff)
  have "2 powi (?e + 52) = real_of_int (2 ^ 52) * 2 powi ?e" by (simp add: power_int_add)
  also have "\<dots> \<le> real_of_int N * 2 powi ?e" using N by (intro mult_right_mono) simp_all
  finally show ?thesis by (simp only: rd)
qed

lemma round_double_mono_pos:
  assumes "0 < x" and "x \<le> y"
  shows "round_double x \<le> round_double y"
proof -
  have y: "0 < y" using assms by simp
  have le: "ulp_exponent x \<le> ulp_exponent y"
    using ilog2_mono[OF assms] assms(1) y by (simp add: ulp_exponent_def)
  show ?thesis
  proof (cases "ulp_exponent x = ulp_exponent y")
    case True
    let ?u = "2 powi ulp_exponent y :: real"
    have "x / ?u \<le> y / ?u" using assms(2) by (simp add: divide_right_mono)
    then have "rne (x / ?u) \<le> rne (y / ?u)" by (rule rne_mono)
    then have "real_of_int (rne (x / ?u)) * ?u \<le> real_of_int (rne (y / ?u)) * ?u"
      by (intro mult_right_mono) simp_all
    then show ?thesis using True assms(1) y by (simp add: round_double_def)
  next
    case False
    then have lt: "ulp_exponent x < ulp_exponent y" using le by simp
    have "- 1074 < ulp_exponent y" using lt ulp_exponent_ge[of x] by linarith
    then have n: "- 1022 \<le> ilog2 y" using y by (simp add: ulp_exponent_def max_def split: if_splits)
    have "round_double x \<le> 2 powi (ulp_exponent x + 53)" using round_double_upper[OF assms(1)] .
    also have "\<dots> \<le> 2 powi (ulp_exponent y + 52)" using lt by (intro power_int_increasing) simp_all
    also have "\<dots> \<le> round_double y" using round_double_lower[OF y n] .
    finally show ?thesis .
  qed
qed

lemma round_double_mono:
  assumes "x \<le> y"
  shows "round_double x \<le> round_double y"
proof -
  consider "0 < x" | "x \<le> 0" "0 \<le> y" | "y < 0" by linarith
  then show ?thesis
  proof cases
    case 1
    then show ?thesis using round_double_mono_pos[OF _ assms] by simp
  next
    case 2
    have "round_double x \<le> 0" using round_double_nonneg[of "- x"] 2(1) by (simp add: round_double_minus)
    moreover have "0 \<le> round_double y" using round_double_nonneg[OF 2(2)] .
    ultimately show ?thesis by simp
  next
    case 3
    have "round_double (- y) \<le> round_double (- x)"
      using round_double_mono_pos[of "- y" "- x"] 3 assms by simp
    then show ?thesis by (simp add: round_double_minus)
  qed
qed

subsection \<open>Values that are doubles\<close>

lemma ilog2_less:
  assumes "0 < x" and "x < 2 powi k"
  shows "ilog2 x < k"
proof -
  have "(2::real) powi ilog2 x < 2 powi k" using ilog2_bounds(1)[OF assms(1)] assms(2) by linarith
  then show ?thesis by (metis not_less power_int_increasing one_le_numeral)
qed

lemma ilog2_ge:
  assumes "2 powi k \<le> x"
  shows "k \<le> ilog2 x"
proof -
  have x: "0 < x" using assms by (meson less_le_trans zero_less_numeral zero_less_power_int)
  have "(2::real) powi k < 2 powi (ilog2 x + 1)" using ilog2_bounds(2)[OF x] assms by linarith
  then have "k < ilog2 x + 1" by (metis not_less power_int_increasing one_le_numeral)
  then show ?thesis by simp
qed

lemma round_double_repr:
  assumes "\<bar>N\<bar> < 2 ^ 53" and "- 1074 \<le> e"
  shows "round_double (of_int N * 2 powi e) = of_int N * 2 powi e"
proof (cases "N = 0")
  case True
  then show ?thesis by simp
next
  case False
  let ?x = "real_of_int N * 2 powi e"
  let ?u = "ulp_exponent ?x"
  have ax: "\<bar>?x\<bar> = real_of_int \<bar>N\<bar> * 2 powi e" by (simp add: abs_mult)
  have pos: "0 < \<bar>?x\<bar>" using False by simp
  have "real_of_int \<bar>N\<bar> < real_of_int (2 ^ 53)" using assms(1) by (simp only: of_int_less_iff)
  then have "real_of_int \<bar>N\<bar> * 2 powi e < real_of_int (2 ^ 53) * 2 powi e"
    by (intro mult_strict_right_mono) simp_all
  also have "\<dots> = 2 powi (e + 53)" by (simp add: power_int_add)
  finally have "\<bar>?x\<bar> < 2 powi (e + 53)" by (simp only: ax)
  then have "ilog2 \<bar>?x\<bar> < e + 53" using ilog2_less[OF pos] by simp
  then have ue: "?u \<le> e" using assms(2) by (simp add: ulp_exponent_def)
  define d where "d = nat (e - ?u)"
  have e: "e = ?u + int d" using ue by (simp add: d_def)
  have "?x / 2 powi ?u = real_of_int N * (2 powi e / 2 powi ?u)" by simp
  also have "2 powi e / 2 powi ?u = (2::real) powi (e - ?u)" by (simp add: power_int_diff)
  also have "\<dots> = 2 ^ d" using ue by (simp add: d_def power_int_def)
  finally have q: "?x / 2 powi ?u = real_of_int (N * 2 ^ d)" by simp
  have "round_double ?x = real_of_int (rne (?x / 2 powi ?u)) * 2 powi ?u"
    using False by (simp add: round_double_def)
  also have "\<dots> = real_of_int (N * 2 ^ d) * 2 powi ?u" by (simp only: q rne_of_int)
  also have "\<dots> = real_of_int N * (2 powi int d * 2 powi ?u)" by simp
  also have "2 powi int d * 2 powi ?u = (2::real) powi e"
    by (subst e) (simp add: power_int_add)
  finally show ?thesis .
qed

lemma round_double_repr53:
  assumes "\<bar>N\<bar> \<le> 2 ^ 53" and "- 1074 \<le> e"
  shows "round_double (of_int N * 2 powi e) = of_int N * 2 powi e"
proof (cases "\<bar>N\<bar> < 2 ^ 53")
  case True
  then show ?thesis using assms(2) by (rule round_double_repr)
next
  case False
  then have "\<bar>N\<bar> = 2 ^ 53" using assms(1) by simp
  then consider "N = 2 ^ 53" | "N = - (2 ^ 53)" by linarith
  then show ?thesis
  proof cases
    case 1
    have "real_of_int N * 2 powi e = real_of_int (2 ^ 52) * 2 powi (e + 1)"
      by (simp add: 1 power_int_add)
    then show ?thesis using round_double_repr[of "2 ^ 52" "e + 1"] assms(2) by simp
  next
    case 2
    have "real_of_int N * 2 powi e = real_of_int (- (2 ^ 52)) * 2 powi (e + 1)"
      by (simp add: 2 power_int_add)
    then show ?thesis using round_double_repr[of "- (2 ^ 52)" "e + 1"] assms(2) by simp
  qed
qed

lemma round_double_of_int:
  "\<bar>k\<bar> \<le> 2 ^ 53 \<Longrightarrow> round_double (of_int k) = of_int k"
  using round_double_repr53[of k 0] by simp

lemma round_double_idem: "round_double (round_double x) = round_double x"
proof -
  have pos: "round_double (round_double x) = round_double x" if x: "0 < x" for x
  proof -
    let ?e = "ulp_exponent x"
    define N where "N = rne (x / 2 powi ?e)"
    have rd: "round_double x = of_int N * 2 powi ?e" using x by (simp add: round_double_def N_def)
    have "x / 2 powi ?e < 2 powi 53" using below_next_binade[OF x] by (simp only: scaled)
    then have "x / 2 powi ?e \<le> of_int (2 ^ 53)" by simp
    then have "N \<le> rne (of_int (2 ^ 53))" unfolding N_def by (rule rne_mono)
    then have up: "N \<le> 2 ^ 53" by (simp only: rne_of_int)
    have "0 \<le> x / 2 powi ?e" using x by simp
    then have "rne 0 \<le> N" unfolding N_def by (rule rne_mono)
    then have "0 \<le> N" by simp
    then have "\<bar>N\<bar> \<le> 2 ^ 53" using up by simp
    then show ?thesis using round_double_repr53[OF _ ulp_exponent_ge[of x]] by (simp only: rd)
  qed
  consider "0 < x" | "x = 0" | "x < 0" by linarith
  then show ?thesis
  proof cases
    case 1 then show ?thesis by (rule pos)
  next
    case 2 then show ?thesis by simp
  next
    case 3
    then have "round_double (round_double (- x)) = round_double (- x)" using pos[of "- x"] by simp
    then show ?thesis by (simp add: round_double_minus)
  qed
qed

subsection \<open>The rounding error\<close>

lemma round_double_error:
  "\<bar>round_double x - x\<bar> \<le> 2 powi ulp_exponent x / 2"
proof (cases "x = 0")
  case True
  then show ?thesis by simp
next
  case False
  let ?u = "2 powi ulp_exponent x :: real"
  have u: "0 < ?u" by simp
  have "round_double x - x = (real_of_int (rne (x / ?u)) - x / ?u) * ?u"
    using False by (simp add: round_double_def algebra_simps)
  then have "\<bar>round_double x - x\<bar> = \<bar>real_of_int (rne (x / ?u)) - x / ?u\<bar> * ?u"
    by (simp add: abs_mult)
  also have "\<dots> \<le> (1 / 2) * ?u" using rne_error[of "x / ?u"] by (intro mult_right_mono) simp_all
  finally show ?thesis by simp
qed

lemma round_double_relative:
  assumes "2 powi (- 1022) \<le> \<bar>x\<bar>"
  shows "\<bar>round_double x - x\<bar> \<le> \<bar>x\<bar> / 2 ^ 53"
proof -
  have pos: "0 < \<bar>x\<bar>" using assms by (meson less_le_trans zero_less_numeral zero_less_power_int)
  have n: "- 1022 \<le> ilog2 \<bar>x\<bar>" using ilog2_ge[OF assms] .
  have "2 powi (ulp_exponent \<bar>x\<bar> + 52) \<le> \<bar>x\<bar>" using above_binade[OF pos n] .
  moreover have "ulp_exponent \<bar>x\<bar> = ulp_exponent x" by (simp add: ulp_exponent_def)
  ultimately have "2 powi ulp_exponent x * 2 ^ 52 \<le> \<bar>x\<bar>" by (simp add: power_int_add)
  then have "2 powi ulp_exponent x / 2 \<le> \<bar>x\<bar> / 2 ^ 53" by simp
  then show ?thesis using round_double_error[of x] by linarith
qed

subsection \<open>Finite results and evaluation\<close>

lemma round_double_abs_le:
  assumes "\<bar>x\<bar> \<le> b" and "round_double b = b"
  shows "\<bar>round_double x\<bar> \<le> b"
proof -
  have "round_double x \<le> round_double b" using assms(1) by (intro round_double_mono) simp
  moreover have "round_double (- b) \<le> round_double x" using assms(1) by (intro round_double_mono) simp
  ultimately show ?thesis using assms(2) by (simp add: round_double_minus abs_le_iff)
qed

lemma round_double_two_powi:
  "- 1074 \<le> e \<Longrightarrow> round_double (2 powi e) = 2 powi e"
  using round_double_repr[of 1 e] by simp

lemma fl_finite:
  assumes "\<bar>x\<bar> \<le> 2 ^ 1023"
  shows "fl x = Fin (round_double x)"
proof -
  have "round_double (2 ^ 1023) = (2 ^ 1023 :: real)"
    using round_double_two_powi[of 1023] by simp
  then have "\<bar>round_double x\<bar> \<le> 2 ^ 1023" using assms by (intro round_double_abs_le)
  moreover have "(2::real) ^ 1023 < 2 ^ 1024" by simp
  ultimately have "round_double x < 2 ^ 1024" "- (2 ^ 1024) < round_double x" by linarith+
  then show ?thesis by (simp add: fl_def Let_def)
qed

lemma round_double_eval:
  assumes "2 powi e \<le> \<bar>x\<bar>" and "\<bar>x\<bar> < 2 powi (e + 1)" and "- 1022 \<le> e"
  shows "round_double x = of_int (rne (x / 2 powi (e - 52))) * 2 powi (e - 52)"
proof -
  have pos: "0 < \<bar>x\<bar>" using assms(1) by (meson less_le_trans zero_less_numeral zero_less_power_int)
  have "ilog2 \<bar>x\<bar> = e" using ilog2_unique[OF pos assms(1,2)] .
  then have "ulp_exponent x = e - 52" using assms(3) by (simp add: ulp_exponent_def)
  then show ?thesis using pos by (simp add: round_double_def)
qed

lemma rne_eval:
  "rne r = (if r - of_int \<lfloor>r\<rfloor> < 1 / 2 then \<lfloor>r\<rfloor>
            else if 1 / 2 < r - of_int \<lfloor>r\<rfloor> then \<lfloor>r\<rfloor> + 1
            else if even \<lfloor>r\<rfloor> then \<lfloor>r\<rfloor> else \<lfloor>r\<rfloor> + 1)"
  by (simp add: rne_def Let_def)

lemma round_double_error2:
  "\<bar>round_double x - x\<bar> \<le> \<bar>x\<bar> / 2 ^ 53 + 2 powi (- 1075)"
proof -
  have eta: "0 \<le> (2::real) powi (- 1075)" by simp
  have rel: "0 \<le> \<bar>x\<bar> / 2 ^ 53" by simp
  consider "x = 0" | "2 powi (- 1022) \<le> \<bar>x\<bar>" | "x \<noteq> 0" "\<bar>x\<bar> < 2 powi (- 1022)" by linarith
  then show ?thesis
  proof cases
    case 1
    then show ?thesis by simp
  next
    case 2
    then show ?thesis using round_double_relative[OF 2] eta by linarith
  next
    case 3
    then have "0 < \<bar>x\<bar>" by simp
    from ilog2_less[OF this 3(2)] have "ulp_exponent x = - 1074" by (simp add: ulp_exponent_def)
    then have "\<bar>round_double x - x\<bar> \<le> 2 powi (- 1074) / 2" using round_double_error[of x] by simp
    also have "2 powi (- 1074) / 2 = (2::real) powi (- 1075)"
      using power_int_add[of "2::real" "- 1075" 1] by simp
    finally show ?thesis using rel by linarith
  qed
qed

lemma fl_of_int: "\<bar>k\<bar> \<le> 2 ^ 53 \<Longrightarrow> fl (of_int k) = Fin (of_int k)"
proof -
  assume k: "\<bar>k\<bar> \<le> 2 ^ 53"
  then have "real_of_int \<bar>k\<bar> \<le> real_of_int (2 ^ 53)" by (simp only: of_int_le_iff)
  then have "\<bar>real_of_int k\<bar> \<le> 2 ^ 1023" by simp
  then show ?thesis using round_double_of_int[OF k] by (simp add: fl_finite)
qed

lemma fl_zero [simp]: "fl 0 = Fin 0"
  using fl_of_int[of 0] by simp

lemma fl_one [simp]: "fl 1 = Fin 1"
  using fl_of_int[of 1] by simp

lemma fl_of_nat:
  assumes "n \<le> 2 ^ 53"
  shows "fl (real n) = Fin (real n)"
proof -
  have "int n \<le> int (2 ^ 53)" using assms by (simp only: of_nat_le_iff)
  then have "\<bar>int n\<bar> \<le> 2 ^ 53" by simp
  from fl_of_int[OF this] show ?thesis by simp
qed

lemma fl_eval:
  assumes "2 powi e \<le> \<bar>x\<bar>" and "\<bar>x\<bar> < 2 powi (e + 1)" and "- 1022 \<le> e" and "e \<le> 1022"
  shows "fl x = Fin (of_int (rne (x / 2 powi (e - 52))) * 2 powi (e - 52))"
proof -
  have "(2::real) powi (e + 1) \<le> 2 powi 1023" using assms(4) by (intro power_int_increasing) simp_all
  then have "\<bar>x\<bar> \<le> 2 ^ 1023" using assms(2) by simp
  then show ?thesis using round_double_eval[OF assms(1-3)] by (simp add: fl_finite)
qed

text \<open>Rewriting a rounding at a given binary exponent, for concrete numbers.\<close>

lemma fl_numeral: "numeral k \<le> (2 ^ 53 :: int) \<Longrightarrow> fl (numeral k) = Fin (numeral k)"
  using fl_of_int[of "numeral k"] by simp

lemma fl_neg_numeral: "numeral k \<le> (2 ^ 53 :: int) \<Longrightarrow> fl (- numeral k) = Fin (- numeral k)"
  using fl_of_int[of "- numeral k"] by simp

lemmas round_double_at =
  round_double_eval[where e = "- 5"] round_double_eval[where e = "- 4"]
  round_double_eval[where e = "- 2"] round_double_eval[where e = "- 1"]
  round_double_eval[where e = 0] round_double_eval[where e = 1] round_double_eval[where e = 2]
  round_double_eval[where e = 5] round_double_eval[where e = 6] round_double_eval[where e = 8]
  round_double_eval[where e = 9]

lemmas fl_at =
  fl_eval[where e = "- 5"] fl_eval[where e = "- 4"] fl_eval[where e = "- 2"]
  fl_eval[where e = "- 1"] fl_eval[where e = 0] fl_eval[where e = 1] fl_eval[where e = 2]
  fl_eval[where e = 5] fl_eval[where e = 6] fl_eval[where e = 8] fl_eval[where e = 9]
section \<open>Statistics toolkit: properties\<close>

subsection \<open>The index of a percentile\<close>

lemma fl_below:
  "round_double x < 2 ^ 1024 \<Longrightarrow>
   fl x = (if round_double x \<le> - (2 ^ 1024) then NegInf else Fin (round_double x))"
  by (simp add: fl_def Let_def)

lemma round_double_le:
  assumes "x \<le> b" and "round_double b = b"
  shows "round_double x \<le> b"
  using round_double_mono[OF assms(1)] assms(2) by simp

lemma round_double_ge:
  assumes "b \<le> x" and "round_double b = b"
  shows "b \<le> round_double x"
  using round_double_mono[OF assms(1)] assms(2) by simp

lemma round_double_one [simp]: "round_double 1 = 1"
  using round_double_of_int[of 1] by simp

lemma round_double_of_nat: "n \<le> 2 ^ 53 \<Longrightarrow> round_double (real n) = real n"
proof -
  assume "n \<le> 2 ^ 53"
  then have "int n \<le> int (2 ^ 53)" by (simp only: of_nat_le_iff)
  then have "\<bar>int n\<bar> \<le> 2 ^ 53" by simp
  from round_double_of_int[OF this] show ?thesis by simp
qed

lemma int_le_2_53: "n \<le> 2 ^ 53 \<Longrightarrow> int n \<le> 2 ^ 53"
  by (metis of_nat_le_iff of_nat_numeral of_nat_power)

lemma clamp_nonnegative: "0 \<le> s \<Longrightarrow> js_max (Fin 0) (Fin s) = Fin s"
  by auto

lemma clamp_nonpositive:
  "v = NegInf \<or> (\<exists>s. v = Fin s \<and> s \<le> 0) \<Longrightarrow> js_max (Fin 0) v = Fin 0"
  by auto

lemma read_first: "xs \<noteq> [] \<Longrightarrow> at_index xs (Fin 0) = Some (xs ! 0)"
  by simp

lemma read_at: "0 \<le> j \<Longrightarrow> j < int (length xs) \<Longrightarrow> at_index xs (Fin (of_int j)) = Some (xs ! nat j)"
  by simp

lemma index_of_rank:
  assumes "r \<le> real n" and "0 < n" and "n \<le> 2 ^ 53" and "length xs = n"
  shows "at_index xs (js_max (Fin 0) (js_sub (js_ceil (Fin r)) (Fin 1))) =
           Some (xs ! nat (max 0 (\<lceil>r\<rceil> - 1)))"
proof -
  let ?k = "\<lceil>r\<rceil>"
  have ne: "xs \<noteq> []" using assms(2,4) by auto
  have kn: "?k \<le> int n" using assms(1) by (simp add: ceiling_le_iff)
  have sub: "js_sub (js_ceil (Fin r)) (Fin 1) = fl (of_int (?k - 1))" by simp
  show ?thesis
  proof (cases "?k - 1 < 0")
    case True
    have "round_double (of_int (?k - 1)) \<le> 0"
      using True by (intro round_double_le) simp_all
    then have "fl (of_int (?k - 1)) = NegInf \<or> (\<exists>s. fl (of_int (?k - 1)) = Fin s \<and> s \<le> 0)"
      by (simp add: fl_below)
    then have e: "js_max (Fin 0) (fl (of_int (?k - 1))) = Fin 0" by (rule clamp_nonpositive)
    have z: "max 0 (?k - 1) = 0" using True by simp
    show ?thesis unfolding sub e z using read_first[OF ne] by simp
  next
    case False
    then have k0: "0 \<le> ?k - 1" by simp
    have "int n \<le> 2 ^ 53" using assms(3) by (rule int_le_2_53)
    then have "\<bar>?k - 1\<bar> \<le> 2 ^ 53" using k0 kn by linarith
    then have f: "fl (of_int (?k - 1)) = Fin (of_int (?k - 1))" by (rule fl_of_int)
    have "0 \<le> real_of_int (?k - 1)" using k0 by (simp only: of_int_0_le_iff)
    then have m: "js_max (Fin 0) (Fin (of_int (?k - 1))) = Fin (of_int (?k - 1))"
      by (rule clamp_nonnegative)
    have lt: "?k - 1 < int (length xs)" using kn assms(4) by simp
    have z: "max 0 (?k - 1) = ?k - 1" using k0 by simp
    show ?thesis unfolding sub f m z using read_at[OF k0 lt] .
  qed
qed

lemma index_of_neginf:
  "xs \<noteq> [] \<Longrightarrow> at_index xs (js_max (Fin 0) (js_sub (js_ceil NegInf) (Fin 1))) = Some (xs ! 0)"
  by simp

lemma percentile_read:
  assumes "p \<le> 100" and "0 < n" and "n \<le> 2 ^ 53" and "length xs = n"
  shows "at_index xs (js_max (Fin 0)
           (js_sub (js_ceil (js_mul (js_div (Fin p) (Fin 100)) (Fin (real n)))) (Fin 1))) =
         Some (xs ! nat (max 0 (double_rank p n - 1)))"
    and "max 0 (double_rank p n - 1) < int n"
proof -
  let ?q = "round_double (p / 100)"
  let ?r = "round_double (?q * real n)"
  have ne: "xs \<noteq> []" using assms(2,4) by auto
  have q1: "?q \<le> 1" using assms(1) by (intro round_double_le) simp_all
  have "?q * real n \<le> 1 * real n" using q1 by (intro mult_right_mono) simp_all
  then have rn: "?r \<le> real n" using round_double_of_nat[OF assms(3)] by (intro round_double_le) simp_all
  have k: "double_rank p n = \<lceil>?r\<rceil>" by (simp add: double_rank_def)
  have kn: "double_rank p n \<le> int n" using rn by (simp add: k ceiling_le_iff)
  show "max 0 (double_rank p n - 1) < int n" using kn assms(2) by simp
  have big: "(1::real) < 2 ^ 1024" "real n < 2 ^ 1024"
  proof -
    show "(1::real) < 2 ^ 1024" by simp
    have "real n \<le> real (2 ^ 53)" using assms(3) by (simp only: of_nat_le_iff)
    then show "real n < 2 ^ 1024" by simp
  qed
  have A: "js_div (Fin p) (Fin 100) = (if ?q \<le> - (2 ^ 1024) then NegInf else Fin ?q)"
    using fl_below[of "p / 100"] q1 big(1) by simp
  have neg: "max 0 (double_rank p n - 1) = 0" if "?r \<le> 0"
    using that by (simp add: k ceiling_le_iff)
  show "at_index xs (js_max (Fin 0)
           (js_sub (js_ceil (js_mul (js_div (Fin p) (Fin 100)) (Fin (real n)))) (Fin 1))) =
         Some (xs ! nat (max 0 (double_rank p n - 1)))"
  proof (cases "?q \<le> - (2 ^ 1024)")
    case True
    then have "?q * real n \<le> 0" using assms(2) by (simp add: mult_le_0_iff)
    then have "?r \<le> 0" by (intro round_double_le) simp_all
    then have z: "max 0 (double_rank p n - 1) = 0" by (rule neg)
    have "js_mul (js_div (Fin p) (Fin 100)) (Fin (real n)) = NegInf"
      using True A assms(2) by simp
    then show ?thesis using index_of_neginf[OF ne] by (simp add: z)
  next
    case False
    then have A': "js_div (Fin p) (Fin 100) = Fin ?q" using A by simp
    have B: "js_mul (Fin ?q) (Fin (real n)) = (if ?r \<le> - (2 ^ 1024) then NegInf else Fin ?r)"
      using fl_below[of "?q * real n"] rn big(2) by simp
    show ?thesis
    proof (cases "?r \<le> - (2 ^ 1024)")
      case True
      then have "?r \<le> 0" by simp
      then have z: "max 0 (double_rank p n - 1) = 0" by (rule neg)
      have "js_mul (js_div (Fin p) (Fin 100)) (Fin (real n)) = NegInf"
        using True A' B by simp
      then show ?thesis using index_of_neginf[OF ne] by (simp add: z)
    next
      case False
      then have "js_mul (js_div (Fin p) (Fin 100)) (Fin (real n)) = Fin ?r"
        using A' B by simp
      then show ?thesis using index_of_rank[OF rn assms(2,3,4)] by (simp only: k)
    qed
  qed
qed

lemma eta_small: "(2::real) powi (- 1075) \<le> 1 / 2 ^ 53"
proof -
  have "(2::real) powi (- 1075) \<le> 2 powi (- 53)" by (intro power_int_increasing) simp_all
  then show ?thesis by (simp add: power_int_minus_divide)
qed

lemma double_product_near:
  assumes "0 \<le> a" and "a \<le> 1" and "n < 2 ^ 32"
  shows "\<bar>round_double (round_double a * real n) - a * real n\<bar> < 1"
proof -
  let ?q = "round_double a"
  let ?e = "1 / 2 ^ 53 :: real"
  have n32: "real n < 2 ^ 32"
  proof -
    have "real n < real (2 ^ 32)" using assms(3) by (simp only: of_nat_less_iff)
    then show ?thesis by simp
  qed
  have q0: "0 \<le> ?q" using assms(1) by (rule round_double_nonneg)
  have q1: "?q \<le> 1" using assms(2) by (intro round_double_le) simp_all
  have "\<bar>?q - a\<bar> \<le> \<bar>a\<bar> / 2 ^ 53 + 2 powi (- 1075)" by (rule round_double_error2)
  also have "\<dots> \<le> ?e + ?e"
    using assms(1,2) eta_small by (intro add_mono) (simp_all add: divide_right_mono)
  finally have qa: "\<bar>?q - a\<bar> \<le> 2 * ?e" by simp
  have "\<bar>round_double (?q * real n) - ?q * real n\<bar> \<le> \<bar>?q * real n\<bar> / 2 ^ 53 + 2 powi (- 1075)"
    by (rule round_double_error2)
  also have "\<bar>?q * real n\<bar> = ?q * real n" using q0 by simp
  also have "?q * real n / 2 ^ 53 + 2 powi (- 1075) \<le> real n * ?e + ?e"
  proof -
    have "?q * real n \<le> 1 * real n" using q1 by (intro mult_right_mono) simp_all
    then have "?q * real n / 2 ^ 53 \<le> real n / 2 ^ 53" by (simp add: divide_right_mono)
    then show ?thesis using eta_small by simp
  qed
  finally have r: "\<bar>round_double (?q * real n) - ?q * real n\<bar> \<le> real n * ?e + ?e" .
  have "\<bar>?q * real n - a * real n\<bar> = \<bar>?q - a\<bar> * real n"
    by (simp add: abs_mult flip: left_diff_distrib)
  also have "\<dots> \<le> 2 * ?e * real n" using qa by (intro mult_right_mono) simp_all
  finally have m: "\<bar>?q * real n - a * real n\<bar> \<le> 2 * ?e * real n" .
  have "\<bar>round_double (?q * real n) - a * real n\<bar> \<le> real n * ?e + ?e + 2 * ?e * real n"
    using r m by linarith
  also have "\<dots> = (3 * real n + 1) * ?e" by (simp add: algebra_simps)
  also have "\<dots> < 1" using n32 by simp
  finally show ?thesis .
qed

lemma ceiling_near:
  fixes x y :: real
  assumes "\<bar>x - y\<bar> < 1"
  shows "\<bar>\<lceil>x\<rceil> - \<lceil>y\<rceil>\<bar> \<le> 1"
proof -
  have "real_of_int \<lceil>x\<rceil> < x + 1" "x \<le> real_of_int \<lceil>x\<rceil>"
       "real_of_int \<lceil>y\<rceil> < y + 1" "y \<le> real_of_int \<lceil>y\<rceil>" by linarith+
  then have "real_of_int \<lceil>x\<rceil> < real_of_int \<lceil>y\<rceil> + 2" "real_of_int \<lceil>y\<rceil> < real_of_int \<lceil>x\<rceil> + 2"
    using assms by linarith+
  then have "\<lceil>x\<rceil> < \<lceil>y\<rceil> + 2" "\<lceil>y\<rceil> < \<lceil>x\<rceil> + 2" by linarith+
  then show ?thesis by linarith
qed

lemma double_rank_near:
  assumes "p \<le> 100" and "0 < n" and "n < 2 ^ 32"
  shows "\<bar>max 0 (double_rank p n - 1) - nearest_rank_index n p\<bar> \<le> 1"
proof (cases "0 \<le> p")
  case True
  let ?a = "p / 100"
  have a: "0 \<le> ?a" "?a \<le> 1" using True assms(1) by simp_all
  have "\<bar>double_rank p n - \<lceil>?a * real n\<rceil>\<bar> \<le> 1"
    unfolding double_rank_def using double_product_near[OF a assms(3)] by (rule ceiling_near)
  moreover have "?a * real n \<le> 1 * real n" using a(2) by (intro mult_right_mono) simp_all
  then have "\<lceil>?a * real n\<rceil> \<le> int n" by (simp add: ceiling_le_iff)
  ultimately show ?thesis using assms(2) by (simp add: nearest_rank_index_def)
next
  case False
  then have neg: "p / 100 \<le> 0" by simp
  then have "round_double (p / 100) \<le> 0" by (intro round_double_le) simp_all
  then have "round_double (p / 100) * real n \<le> 0" by (simp add: mult_le_0_iff)
  then have "round_double (round_double (p / 100) * real n) \<le> 0" by (intro round_double_le) simp_all
  then have 1: "double_rank p n \<le> 0" by (simp add: double_rank_def ceiling_le_iff)
  have "p / 100 * real n \<le> 0" using neg by (simp add: mult_le_0_iff)
  then have 2: "\<lceil>p / 100 * real n\<rceil> \<le> 0" by (simp add: ceiling_le_iff)
  show ?thesis using 1 2 assms(2) by (simp add: nearest_rank_index_def)
qed

subsection \<open>Percentiles\<close>

lemma fl_small_numerals:
  "fl 2 = Fin 2" "fl 3 = Fin 3" "fl 20 = Fin 20" "fl 30 = Fin 30" "fl 50 = Fin 50" "fl 100 = Fin 100"
  using fl_of_int[of 2] fl_of_int[of 3] fl_of_int[of 20] fl_of_int[of 30] fl_of_int[of 50]
    fl_of_int[of 100]
  by simp_all

lemma round_double_examples:
  "round_double (1 / 2) = 1 / 2"
  "round_double (3 / 2) = 3 / 2"
  "round_double (7 / 25) = 1261007895663739 / 4503599627370496"
  "round_double (31525197391593475 / 4503599627370496) = 7881299347898369 / 1125899906842624"
  using round_double_eval[of "- 1" "1 / 2"] round_double_eval[of 0 "3 / 2"]
    round_double_eval[of "- 2" "7 / 25"]
    round_double_eval[of 2 "31525197391593475 / 4503599627370496"]
  by (simp_all add: rne_eval)

lemma double_rank_examples:
  "double_rank 50 3 = 2" "double_rank 28 25 = 8"
  by (simp_all add: double_rank_def round_double_examples)

lemma sort_first_25: "sort first_25 = first_25"
  by (simp add: first_25_def)

lemma nearest_rank_examples:
  "nearest_rank_spec [1] 200 = 1" "nearest_rank_spec [3, 1, 2] 50 = 2"
  "nearest_rank_index 25 28 = 6" "nearest_rank_spec first_25 28 = 7"
  by (simp_all add: nearest_rank_spec_def nearest_rank_index_def first_25_def)

text \<open>
  C4, amended. For every list of finite numbers (of a length below \<open>2 ^ 32\<close>, as every
  array has) and every \<open>p \<le> 100\<close>, negative \<open>p\<close> included, both percentile functions
  return \<open>0\<close> on the empty list and otherwise the element of the ascending-sorted values
  at the index \<open>max(0, r - 1)\<close>, where \<open>r\<close> is the rank \<open>ceil(p/100 \<times> n)\<close> as double
  arithmetic computes it (the quotient rounded, then the product). That index is a
  position of the list, and it is at most one away from the nearest-rank index
  \<open>ceil(p/100 \<times> n) - 1\<close> clamped to \<open>[0, n-1]\<close>.
\<close>

theorem percentile_rank_in_doubles:
  "(values = [] \<longrightarrow>
      AdvancedAnalytics_calculatePercentile values p = Some 0 \<and>
      fst (MetricsAggregator_calculatePercentile values p) = Some 0) \<and>
   (values \<noteq> [] \<and> length values < 2 ^ 32 \<and> p \<le> 100 \<longrightarrow>
      AdvancedAnalytics_calculatePercentile values p =
        Some (sort values ! nat (max 0 (double_rank p (length values) - 1))) \<and>
      fst (MetricsAggregator_calculatePercentile values p) =
        Some (sort values ! nat (max 0 (double_rank p (length values) - 1))) \<and>
      max 0 (double_rank p (length values) - 1) < int (length values) \<and>
      \<bar>max 0 (double_rank p (length values) - 1) - nearest_rank_index (length values) p\<bar> \<le> 1)"
proof -
  have empty: "AdvancedAnalytics_calculatePercentile [] p = Some 0 \<and>
      fst (MetricsAggregator_calculatePercentile [] p) = Some 0"
    by (simp add: AdvancedAnalytics_calculatePercentile_def MetricsAggregator_calculatePercentile_def)
  have rest: "AdvancedAnalytics_calculatePercentile values p =
        Some (sort values ! nat (max 0 (double_rank p (length values) - 1))) \<and>
      fst (MetricsAggregator_calculatePercentile values p) =
        Some (sort values ! nat (max 0 (double_rank p (length values) - 1))) \<and>
      max 0 (double_rank p (length values) - 1) < int (length values) \<and>
      \<bar>max 0 (double_rank p (length values) - 1) - nearest_rank_index (length values) p\<bar> \<le> 1"
    if ne: "values \<noteq> []" and len: "length values < 2 ^ 32" and p: "p \<le> 100"
  proof -
    let ?n = "length values"
    have pos: "0 < ?n" using ne by simp
    have n53: "?n \<le> 2 ^ 53"
    proof -
      have "(2::nat) ^ 32 \<le> 2 ^ 53" by (intro power_increasing) simp_all
      then show ?thesis using len by linarith
    qed
    have ls: "length (sort values) = ?n" by simp
    note r = percentile_read[OF p pos n53 ls]
    have a: "AdvancedAnalytics_calculatePercentile values p =
        Some (sort values ! nat (max 0 (double_rank p ?n - 1)))"
      using ne r(1) by (simp add: AdvancedAnalytics_calculatePercentile_def Let_def)
    have m: "fst (MetricsAggregator_calculatePercentile values p) =
        Some (sort values ! nat (max 0 (double_rank p ?n - 1)))"
      using ne r(1) by (simp add: MetricsAggregator_calculatePercentile_def Let_def)
    show ?thesis using a m r(2) double_rank_near[OF p pos len] by simp
  qed
  show ?thesis using empty rest by blast
qed

theorem percentile_rank_in_doubles_witness:
  "AdvancedAnalytics_calculatePercentile [3, 1, 2] 50 = Some 2 \<and>
   fst (MetricsAggregator_calculatePercentile [3, 1, 2] 50) = Some 2 \<and>
   nearest_rank_spec [3, 1, 2] 50 = 2 \<and>
   AdvancedAnalytics_calculatePercentile first_25 28 = Some 8 \<and>
   nearest_rank_index 25 28 = 6 \<and>
   AdvancedAnalytics_calculatePercentile [] 50 = Some 0"
proof -
  have l3: "length [3, 1, 2::real] = 3" by simp
  have l25: "length first_25 = 25" by (simp add: first_25_def)
  have ne: "first_25 \<noteq> []" by (simp add: first_25_def)
  have e: "first_25 ! 7 = 8" by (simp add: first_25_def)
  note a = percentile_rank_in_doubles[of "[3, 1, 2]" 50, unfolded l3]
  note b = percentile_rank_in_doubles[of first_25 28, unfolded l25]
  note c = percentile_rank_in_doubles[of "[]" 50]
  show ?thesis
    using a b c ne e by (simp add: double_rank_examples nearest_rank_examples sort_first_25)
qed

text \<open>
  C4. As stated (the element at the nearest-rank index clamped to \<open>[0, n-1]\<close>, for every
  \<open>p\<close>) the claim fails. The source clamps the index at \<open>0\<close> only: for \<open>p = 200\<close> on
  \<open>[1]\<close> the read is past the end and yields \<^verbatim>\<open>undefined\<close>. And the index is computed
  in doubles: for the 25 values \<open>1, ..., 25\<close> and \<open>p = 28\<close> the product \<open>0.28 \<times> 25\<close> is
  \<open>7.000000000000001\<close>, so the value returned is \<open>8\<close>, of rank 8, where the nearest rank
  \<open>ceil(28/100 \<times> 25)\<close> is 7.
\<close>

theorem percentile_counterexample:
  "AdvancedAnalytics_calculatePercentile [1] 200 = None \<and>
   fst (MetricsAggregator_calculatePercentile [1] 200) = None \<and>
   nearest_rank_spec [1] 200 = 1 \<and>
   AdvancedAnalytics_calculatePercentile first_25 28 = Some 8 \<and>
   fst (MetricsAggregator_calculatePercentile first_25 28) = Some 8 \<and>
   nearest_rank_spec first_25 28 = 7"
proof -
  have a: "AdvancedAnalytics_calculatePercentile [1] 200 = None"
    "fst (MetricsAggregator_calculatePercentile [1] 200) = None"
    by (simp_all add: AdvancedAnalytics_calculatePercentile_def
        MetricsAggregator_calculatePercentile_def fl_small_numerals)
  have n: "(25::nat) \<le> 2 ^ 53" by simp
  have l: "length (sort first_25) = 25" by (simp add: first_25_def)
  have r: "at_index (sort first_25) (js_max (Fin 0)
           (js_sub (js_ceil (js_mul (js_div (Fin 28) (Fin 100)) (Fin (real 25)))) (Fin 1))) =
         Some (sort first_25 ! nat (max 0 (double_rank 28 25 - 1)))"
    by (rule percentile_read(1)[OF _ _ n l]) simp_all
  have e: "sort first_25 ! nat (max 0 (double_rank 28 25 - 1)) = 8"
    by (simp add: double_rank_examples sort_first_25) (simp add: first_25_def)
  have b: "AdvancedAnalytics_calculatePercentile first_25 28 = Some 8"
    "fst (MetricsAggregator_calculatePercentile first_25 28) = Some 8"
    using r e l
    by (simp_all add: AdvancedAnalytics_calculatePercentile_def
        MetricsAggregator_calculatePercentile_def Let_def)
  show ?thesis using a b by (simp add: nearest_rank_examples)
qed

text \<open>
  C9. The claim (the caller's list is unchanged after the call) is what
  \<^verbatim>\<open>AdvancedAnalyticsClient.calculatePercentile\<close> does, by sorting a copy.
  \<^verbatim>\<open>MetricsAggregator.calculatePercentile\<close> sorts the caller's array itself: called on
  \<open>[3, 1, 2]\<close> it leaves the caller holding \<open>[1, 2, 3]\<close>.
\<close>

theorem MetricsAggregator_calculatePercentile_mutates:
  "snd (MetricsAggregator_calculatePercentile [3, 1, 2] 50) = [1, 2, 3] \<and>
   snd (MetricsAggregator_calculatePercentile [3, 1, 2] 50) \<noteq> [3, 1, 2]"
  by (simp add: MetricsAggregator_calculatePercentile_def Let_def)

subsection \<open>The Monte Carlo trials return\<close>

lemma trialLoop_exit_aux:
  "sprints \<le> 100 \<Longrightarrow> n = 100 - sprints \<Longrightarrow>
   \<forall>k < sprints. js_less (Fin 0) (workAfter M rnd avg sd w0 k) \<Longrightarrow>
   \<exists>s. trialLoop M rnd avg sd (workAfter M rnd avg sd w0 sprints) sprints = Some s \<and> s \<le> 101 \<and>
       first_exit (workAfter M rnd avg sd w0) s"
proof (induction n arbitrary: sprints)
  case 0
  then have s: "sprints = 100" by simp
  show ?case
  proof (cases "js_less (Fin 0) (workAfter M rnd avg sd w0 sprints)")
    case True
    have "\<forall>k < 101. js_less (Fin 0) (workAfter M rnd avg sd w0 k)"
    proof (intro allI impI)
      fix k :: nat assume "k < 101"
      then have "k < sprints \<or> k = sprints" using s by linarith
      then show "js_less (Fin 0) (workAfter M rnd avg sd w0 k)" using True "0.prems"(3) by blast
    qed
    then have "first_exit (workAfter M rnd avg sd w0) 101" by (simp add: first_exit_def)
    moreover have "trialLoop M rnd avg sd (workAfter M rnd avg sd w0 sprints) sprints = Some 101"
      using True s by (subst trialLoop.simps) (simp add: Let_def)
    ultimately show ?thesis by simp
  next
    case False
    have "first_exit (workAfter M rnd avg sd w0) sprints"
      using False "0.prems"(1,3) by (simp add: first_exit_def)
    moreover have "trialLoop M rnd avg sd (workAfter M rnd avg sd w0 sprints) sprints = Some sprints"
      using False by (subst trialLoop.simps) simp
    ultimately show ?thesis using "0.prems"(1) by simp
  qed
next
  case (Suc n)
  let ?w = "workAfter M rnd avg sd w0 sprints"
  show ?case
  proof (cases "js_less (Fin 0) ?w")
    case False
    have "first_exit (workAfter M rnd avg sd w0) sprints"
      using False Suc.prems(1,3) by (simp add: first_exit_def)
    moreover have "trialLoop M rnd avg sd ?w sprints = Some sprints"
      using False by (subst trialLoop.simps) simp
    ultimately show ?thesis using Suc.prems(1) by simp
  next
    case True
    have le: "Suc sprints \<le> 100" and n: "n = 100 - Suc sprints" using Suc.prems by simp_all
    have all: "\<forall>k < Suc sprints. js_less (Fin 0) (workAfter M rnd avg sd w0 k)"
      using True Suc.prems(3) by (simp add: less_Suc_eq)
    have "trialLoop M rnd avg sd ?w sprints =
          trialLoop M rnd avg sd (workAfter M rnd avg sd w0 (Suc sprints)) (Suc sprints)"
      using True le by (subst trialLoop.simps) (simp add: Let_def)
    with Suc.IH[OF le n all] show ?thesis by simp
  qed
qed

lemma trialLoop_returns:
  "\<exists>s. trialLoop M rnd avg sd remainingWork 0 = Some s \<and> s \<le> 101 \<and>
       first_exit (workAfter M rnd avg sd remainingWork) s"
  using trialLoop_exit_aux[of 0 100 M rnd avg sd remainingWork] by simp

lemma first_exit_unique:
  assumes "first_exit w s" and "\<forall>k < t. js_less (Fin 0) (w k)" and "\<not> js_less (Fin 0) (w t)"
    and "t \<le> 100"
  shows "s = t"
proof -
  have "\<not> t < s" using assms(1,3) by (auto simp: first_exit_def)
  moreover have "\<not> s < t"
  proof
    assume lt: "s < t"
    then have "js_less (Fin 0) (w s)" using assms(2) by simp
    moreover have "s \<noteq> 101" using lt assms(4) by simp
    ultimately show False using assms(1) by (auto simp: first_exit_def)
  qed
  ultimately show ?thesis by simp
qed

lemma first_exit_cap:
  assumes "first_exit w s" and "\<forall>k < 101. js_less (Fin 0) (w k)"
  shows "s = 101"
  using assms by (auto simp: first_exit_def)

lemma runTrials_returns:
  assumes "\<And>i. \<exists>s. trial i = Some s \<and> s \<le> b"
  shows "\<exists>rs. runTrials trial is = Some rs \<and> length rs = length is \<and> list_all (\<lambda>s. s \<le> b) rs"
proof (induction "is")
  case Nil
  show ?case by simp
next
  case (Cons i "is")
  from assms obtain s where "trial i = Some s" "s \<le> b" by blast
  moreover from Cons.IH obtain rs where
    "runTrials trial is = Some rs" "length rs = length is" "list_all (\<lambda>s. s \<le> b) rs" by blast
  ultimately show ?case by simp
qed

lemma runMonteCarloSimulation_returns:
  "\<exists>rs. runMonteCarloSimulation M rand remainingWork avg sd iterations = Some rs \<and>
        length rs = iterations \<and> sorted rs \<and> list_all (\<lambda>s. s \<le> 101) rs"
proof -
  have "\<And>i. \<exists>s. trialLoop M (rand i) avg sd remainingWork 0 = Some s \<and> s \<le> 101"
    using trialLoop_returns by blast
  from runTrials_returns[of "\<lambda>i. trialLoop M (rand i) avg sd remainingWork 0" 101 "[0..<iterations]", OF this]
  obtain rs where rs: "runTrials (\<lambda>i. trialLoop M (rand i) avg sd remainingWork 0) [0..<iterations] = Some rs"
    "length rs = iterations" "list_all (\<lambda>s. s \<le> 101) rs" by auto
  then have "runMonteCarloSimulation M rand remainingWork avg sd iterations = Some (sort rs)"
    by (simp add: runMonteCarloSimulation_def)
  moreover have "list_all (\<lambda>s. s \<le> 101) (sort rs)"
    using rs(3) by (simp add: list_all_iff)
  ultimately show ?thesis using rs(2) by simp
qed

text \<open>
  C7. Every Monte Carlo trial returns, for all inputs (any library, any mean velocity,
  any deviation, any random draws, any remaining work): it reports the first round at
  which the remaining work is not above \<open>0\<close>, and \<open>101\<close> when the work is still above
  \<open>0\<close> at the round \<open>100\<close>, where the safety check \<^verbatim>\<open>sprints > 100\<close> ends the loop. So
  every reported sprint count is at most \<open>101\<close>, and the whole simulation returns one
  count per trial. (A remaining work that is NaN is not above \<open>0\<close> and ends the loop too.)
\<close>

theorem monte_carlo_trial_terminates:
  "(\<exists>s. trialLoop M rnd avg sd remainingWork 0 = Some s \<and> s \<le> 101 \<and>
        first_exit (workAfter M rnd avg sd remainingWork) s) \<and>
   (\<exists>results. runMonteCarloSimulation M rand remainingWork avg sd iterations = Some results \<and>
        length results = iterations \<and> list_all (\<lambda>s. s \<le> 101) results)"
  using trialLoop_returns[of M rnd avg sd remainingWork]
    runMonteCarloSimulation_returns[of M rand remainingWork avg sd iterations]
  by blast

subsection \<open>Trials of the examples\<close>

lemma example_math_simps [simp]:
  "math_log example_math = example_log" "math_sqrt example_math = example_sqrt"
  "math_cos example_math = example_cos" "math_pow example_math = example_pow"
  by (simp_all add: example_math_def)

lemma double_rank_1000:
  "double_rank 5 1000 = 50" "double_rank 50 1000 = 500" "double_rank 95 1000 = 950"
  "double_rank 90 1000 = 900" "double_rank 10 1000 = 100" "double_rank (- 50) 1000 = - 500"
  by (simp_all add: double_rank_def round_double_at rne_eval)

lemma normalRandom_examples:
  "normalRandom example_math (Fin 20) (Fin 0) (1 / 2, 0) = Fin 20"
  "normalRandom example_math (Fin 20) (Fin 0) (0, 0) = NaN"
  "normalRandom example_math (Fin 20) (Fin 2) (0, 0) = PosInf"
  "normalRandom example_math (Fin 20) (Fin 2) (0, 1 / 2) = NegInf"
  by (simp_all add: normalRandom_def Let_def example_log_def example_sqrt_def example_cos_def
      js_PI_def fl_at rne_eval fl_numeral)

lemma workAfter_half:
  "workAfter example_math (draws_half i) (Fin 20) (Fin 0) (Fin 30) 0 = Fin 30"
  "workAfter example_math (draws_half i) (Fin 20) (Fin 0) (Fin 30) 1 = Fin 10"
  "workAfter example_math (draws_half i) (Fin 20) (Fin 0) (Fin 30) 2 = Fin (- 10)"
  "workAfter example_math (draws_half i) (Fin 20) (Fin 0) (Fin 30) (Suc 0) = Fin 10"
  "workAfter example_math (draws_half i) (Fin 20) (Fin 0) (Fin 30) (Suc (Suc 0)) = Fin (- 10)"
  by (simp_all add: numeral_2_eq_2 draws_half_def normalRandom_examples fl_numeral fl_neg_numeral)

lemma workAfter_zero:
  "workAfter example_math (draws_zero i) (Fin 20) (Fin 0) (Fin 30) 0 = Fin 30"
  "workAfter example_math (draws_zero i) (Fin 20) (Fin 0) (Fin 30) 1 = NaN"
  "workAfter example_math (draws_zero i) (Fin 20) (Fin 2) (Fin 30) 0 = Fin 30"
  "workAfter example_math (draws_zero i) (Fin 20) (Fin 2) (Fin 30) 1 = NegInf"
  "workAfter example_math (draws_zero i) (Fin 20) (Fin 0) (Fin 30) (Suc 0) = NaN"
  "workAfter example_math (draws_zero i) (Fin 20) (Fin 2) (Fin 30) (Suc 0) = NegInf"
  by (simp_all add: draws_zero_def normalRandom_examples)

lemma workAfter_stuck:
  "(\<And>j. rnd j = (0, 1 / 2)) \<Longrightarrow>
   workAfter example_math rnd (Fin 20) (Fin 2) (Fin 30) k = Fin 30"
  by (induction k) (simp_all add: normalRandom_examples fl_numeral)

lemma less_two: "k < 2 \<longleftrightarrow> k = 0 \<or> k = (1::nat)"
  by auto

text \<open>
  Three trials with a remaining work of 30 and a mean velocity of 20. Without deviation
  and with finite draws the work is 10 after one round and \<open>-10\<close> after two: two sprints.
  Without deviation and with \<^verbatim>\<open>Math.random() = 0\<close> the velocity is NaN (the infinite
  deviate times \<open>0\<close>), the work is NaN after one round and the trial reports one sprint.
  With a deviation of 2 and the deviate \<open>-\<infinity>\<close> in every round the velocity is clamped to
  \<open>0\<close>, the work stays 30 and the trial reports 101.
\<close>

theorem monte_carlo_trial_terminates_witness:
  "trialLoop example_math (draws_half 0) (Fin 20) (Fin 0) (Fin 30) 0 = Some 2 \<and>
   workAfter example_math (draws_half 0) (Fin 20) (Fin 0) (Fin 30) 1 = Fin 10 \<and>
   workAfter example_math (draws_half 0) (Fin 20) (Fin 0) (Fin 30) 2 = Fin (- 10) \<and>
   trialLoop example_math (draws_zero 0) (Fin 20) (Fin 0) (Fin 30) 0 = Some 1 \<and>
   workAfter example_math (draws_zero 0) (Fin 20) (Fin 0) (Fin 30) 1 = NaN \<and>
   trialLoop example_math (draws_mixed 100) (Fin 20) (Fin 2) (Fin 30) 0 = Some 101 \<and>
   workAfter example_math (draws_mixed 100) (Fin 20) (Fin 2) (Fin 30) 100 = Fin 30"
proof -
  let ?h = "workAfter example_math (draws_half 0) (Fin 20) (Fin 0) (Fin 30)"
  let ?z = "workAfter example_math (draws_zero 0) (Fin 20) (Fin 0) (Fin 30)"
  let ?m = "workAfter example_math (draws_mixed 100) (Fin 20) (Fin 2) (Fin 30)"
  obtain s where s: "trialLoop example_math (draws_half 0) (Fin 20) (Fin 0) (Fin 30) 0 = Some s"
    "first_exit ?h s"
    using monte_carlo_trial_terminates[of example_math "draws_half 0" "Fin 20" "Fin 0" "Fin 30"]
    by blast
  have "\<forall>k < 2. js_less (Fin 0) (?h k)" by (auto simp: less_two workAfter_half simp del: workAfter.simps)
  moreover have "\<not> js_less (Fin 0) (?h 2)" by (simp add: workAfter_half del: workAfter.simps)
  ultimately have "s = 2" using first_exit_unique[OF s(2), of 2] by simp
  then have 1: "trialLoop example_math (draws_half 0) (Fin 20) (Fin 0) (Fin 30) 0 = Some 2"
    using s(1) by simp
  obtain u where u: "trialLoop example_math (draws_zero 0) (Fin 20) (Fin 0) (Fin 30) 0 = Some u"
    "first_exit ?z u"
    using monte_carlo_trial_terminates[of example_math "draws_zero 0" "Fin 20" "Fin 0" "Fin 30"]
    by blast
  have "\<forall>k < 1. js_less (Fin 0) (?z k)" by (simp add: workAfter_zero del: workAfter.simps)
  moreover have "\<not> js_less (Fin 0) (?z 1)" by (simp add: workAfter_zero del: workAfter.simps)
  ultimately have "u = 1" using first_exit_unique[OF u(2), of 1] by simp
  then have 2: "trialLoop example_math (draws_zero 0) (Fin 20) (Fin 0) (Fin 30) 0 = Some 1"
    using u(1) by simp
  obtain v where v: "trialLoop example_math (draws_mixed 100) (Fin 20) (Fin 2) (Fin 30) 0 = Some v"
    "first_exit ?m v"
    using monte_carlo_trial_terminates[of example_math "draws_mixed 100" "Fin 20" "Fin 2" "Fin 30"]
    by blast
  have m: "?m k = Fin 30" for k
    by (rule workAfter_stuck) (simp add: draws_mixed_def)
  then have "\<forall>k < 101. js_less (Fin 0) (?m k)" by simp
  then have "v = 101" using first_exit_cap[OF v(2)] by simp
  then have 3: "trialLoop example_math (draws_mixed 100) (Fin 20) (Fin 2) (Fin 30) 0 = Some 101"
    using v(1) by simp
  show ?thesis using 1 2 3 m by (simp add: workAfter_half workAfter_zero del: workAfter.simps)
qed
subsection \<open>Trend classification\<close>

section \<open>Numbers as text: properties\<close>

declare decimal.simps [simp del]

lemma decimal_small: "n < 10 \<Longrightarrow> decimal n = [''0123456789'' ! n]"
  by (subst decimal.simps) simp

lemma decimal_large:
  "\<not> n < 10 \<Longrightarrow> decimal n = decimal (n div 10) @ [''0123456789'' ! (n mod 10)]"
  by (subst decimal.simps) simp

lemma decimal_not_Nil: "decimal n \<noteq> []"
  by (cases "n < 10") (simp_all add: decimal_small decimal_large)

lemma digit_inj:
  assumes "a < 10" and "b < 10" and "''0123456789'' ! a = ''0123456789'' ! b"
  shows "a = b"
proof -
  have "distinct ''0123456789''" by simp
  moreover have "a < length ''0123456789''" "b < length ''0123456789''" using assms by simp_all
  ultimately show ?thesis using assms(3) by (simp only: nth_eq_iff_index_eq)
qed

lemma decimal_inj: "decimal n = decimal m \<Longrightarrow> n = m"
proof (induction n arbitrary: m rule: decimal.induct)
  case (1 n)
  show ?case
  proof (cases "n < 10")
    case small: True
    show ?thesis
    proof (cases "m < 10")
      case True
      then show ?thesis using small "1.prems" digit_inj[of n m]
        by (simp add: decimal_small)
    next
      case False
      then show ?thesis using small "1.prems" decimal_not_Nil[of "m div 10"]
        by (simp add: decimal_small decimal_large)
    qed
  next
    case large: False
    show ?thesis
    proof (cases "m < 10")
      case True
      then show ?thesis using large "1.prems" decimal_not_Nil[of "n div 10"]
        by (simp add: decimal_small decimal_large)
    next
      case False
      then have eq: "decimal (n div 10) = decimal (m div 10)"
        and d: "''0123456789'' ! (n mod 10) = ''0123456789'' ! (m mod 10)"
        using large "1.prems" by (simp_all add: decimal_large)
      have "n div 10 = m div 10" using "1.IH"[OF large eq] .
      moreover have "n mod 10 = m mod 10" using d by (intro digit_inj) simp_all
      ultimately show ?thesis by (metis div_mult_mod_eq)
    qed
  qed
qed

lemma decimal_digits: "set (decimal n) \<subseteq> set ''0123456789''"
proof -
  define D where "D = set ''0123456789''"
  have digit: "''0123456789'' ! k \<in> D" if "k < 10" for k
  proof -
    have "k < length ''0123456789''" using that by simp
    then show ?thesis unfolding D_def by (rule nth_mem)
  qed
  have "set (decimal n) \<subseteq> D"
  proof (induction n rule: decimal.induct)
    case (1 n)
    show ?case
    proof (cases "n < 10")
      case True
      then have "set (decimal n) = {''0123456789'' ! n}" by (simp add: decimal_small)
      then show ?thesis using digit[OF True] by simp
    next
      case False
      have "set (decimal n) = set (decimal (n div 10)) \<union> {''0123456789'' ! (n mod 10)}"
        using False by (simp add: decimal_large)
      then show ?thesis using "1.IH"[OF False] digit[of "n mod 10"] by simp
    qed
  qed
  then show ?thesis by (simp only: D_def)
qed

lemma show_int_inj: "show_int a = show_int b \<Longrightarrow> a = b"
proof -
  assume eq: "show_int a = show_int b"
  have no_dash: "CHR ''-'' \<notin> set (decimal n)" for n
    using decimal_digits[of n] by auto
  show ?thesis
  proof (cases "a < 0"; cases "b < 0")
    assume "a < 0" "b < 0"
    then have "decimal (nat (- a)) = decimal (nat (- b))" using eq by (simp add: show_int_def)
    then have "nat (- a) = nat (- b)" by (rule decimal_inj)
    then show ?thesis using \<open>a < 0\<close> \<open>b < 0\<close> by simp
  next
    assume "a < 0" "\<not> b < 0"
    then have "CHR ''-'' # decimal (nat (- a)) = decimal (nat b)" using eq by (simp add: show_int_def)
    then have "CHR ''-'' \<in> set (decimal (nat b))" by (metis list.set_intros(1))
    then show ?thesis using no_dash by simp
  next
    assume "\<not> a < 0" "b < 0"
    then have "decimal (nat a) = CHR ''-'' # decimal (nat (- b))" using eq by (simp add: show_int_def)
    then have "CHR ''-'' \<in> set (decimal (nat a))" by (metis list.set_intros(1))
    then show ?thesis using no_dash by simp
  next
    assume "\<not> a < 0" "\<not> b < 0"
    then have "decimal (nat a) = decimal (nat b)" using eq by (simp add: show_int_def)
    then have "nat a = nat b" by (rule decimal_inj)
    then show ?thesis using \<open>\<not> a < 0\<close> \<open>\<not> b < 0\<close> by simp
  qed
qed

section \<open>Record store: properties\<close>

subsection \<open>Directories and files\<close>

lemma dir_of_set_dir [simp]:
  "dir_of (set_dir st ty d) ty' = (if ty' = ty then d else dir_of st ty')"
  by (cases ty; cases ty') simp_all

lemma set_dir_set_dir [simp]: "set_dir (set_dir st ty d) ty d' = set_dir st ty d'"
  by (cases ty) simp_all

lemma set_dir_same [simp]: "set_dir st ty (dir_of st ty) = st"
  by (cases ty) simp_all

lemma example_env_simps [simp]:
  "md5hex example_env = example_md5"
  "jsonSize example_env v = 2"
  "toISOString example_env = show_int"
  "maxCacheAge example_env = 86400000"
  by (simp_all add: example_env_def)

lemma show_int_1000: "show_int 1000 = ''1000''"
  by (simp add: show_int_def decimal.simps)

lemma generateId_example: "generateId example_env ''k'' 1000 = ''8ce4b16b-1000''"
  by (simp add: generateId_def show_int_def example_md5_def decimal.simps)


text \<open>
  C3. Two writes under the same key that read the same millisecond from the clock do not
  get distinct ids: \<^verbatim>\<open>generateId\<close> is the digest of the key and \<^verbatim>\<open>Date.now()\<close>, both
  equal. The second write replaces the file of the first, and the id then yields the
  second payload.
\<close>

theorem same_key_same_millisecond_same_id:
  "fst (store example_env Cache ''k'' (JNum 1) [] None 1000 empty_storage) = ''8ce4b16b-1000'' \<and>
   fst (store example_env Cache ''k'' (JNum 2) [] None 1000
          (snd (store example_env Cache ''k'' (JNum 1) [] None 1000 empty_storage))) = ''8ce4b16b-1000'' \<and>
   map_option data (fst (retrieve Cache ''8ce4b16b-1000'' 1000
      (snd (store example_env Cache ''k'' (JNum 2) [] None 1000
          (snd (store example_env Cache ''k'' (JNum 1) [] None 1000 empty_storage)))))) = Some (JNum 2)"
  by (simp add: store_def Let_def generateId_example writeFile_def updateIndex_def empty_storage_def obj_assign_def
      empty_directory_def retrieve_def resolve_def fileExists_def expired_def)

lemma files_unlink [simp]:
  "map_of (files (dir_of (unlink st ty name) ty')) n =
     (if ty' = ty \<and> n = name then None else map_of (files (dir_of st ty')) n)"
  by (simp add: unlink_def delete_conv)

lemma index_unlink [simp]: "index (dir_of (unlink st ty name) ty') = index (dir_of st ty')"
  by (simp add: unlink_def)

lemma files_writeFile [simp]:
  "map_of (files (dir_of (writeFile st ty name f) ty')) n =
     (if ty' = ty \<and> n = name then Some f else map_of (files (dir_of st ty')) n)"
  by (simp add: writeFile_def update_conv)

lemma index_writeFile [simp]: "index (dir_of (writeFile st ty name f) ty') = index (dir_of st ty')"
  by (simp add: writeFile_def)

lemma files_updateIndex [simp]:
  "files (dir_of (updateIndex st ty ident key meta) ty') = files (dir_of st ty')"
  by (simp add: updateIndex_def)

lemma index_updateIndex [simp]:
  "map_of (index (dir_of (updateIndex st ty ident key meta) ty')) k =
     (if ty' = ty \<and> k = key \<and> key \<noteq> ''__proto__'' then Some ident
      else map_of (index (dir_of st ty')) k)"
  by (simp add: updateIndex_def update_conv)

lemma retrieve_not_expired:
  "fst (retrieve ty keyOrId now st) = Some r \<Longrightarrow> \<not> expired r now"
  by (auto simp: retrieve_def split: option.splits file_content.splits if_splits)

lemma retrieve_expired:
  assumes "resolve (dir_of st ty) keyOrId = Some name"
    and "map_of (files (dir_of st ty)) name = Some (Valid r)" and "expired r now"
  shows "retrieve ty keyOrId now st = (None, unlink st ty name)"
  using assms by (simp add: retrieve_def)

lemma list_loop_step:
  "list_loop ty flt now (name # names) items st =
     (case map_of (files (dir_of st ty)) name of
        Some (Valid item) \<Rightarrow>
          if expired item now then list_loop ty flt now names items (unlink st ty name)
          else if (case flt of None \<Rightarrow> True | Some f \<Rightarrow> matches (metadata item) f)
               then list_loop ty flt now names (items @ [item]) st
               else list_loop ty flt now names items st
      | _ \<Rightarrow> list_loop ty flt now names items st)"
  by (simp split: option.splits file_content.splits)

declare list_loop.simps(2) [simp del]

lemma list_loop_items:
  "r \<in> set (fst (list_loop ty flt now names items st)) \<Longrightarrow> r \<in> set items \<or> \<not> expired r now"
proof (induction names arbitrary: items st)
  case Nil
  then show ?case by simp
next
  case (Cons name names)
  note step = list_loop_step[of ty flt now name names items st]
  show ?case
  proof (cases "map_of (files (dir_of st ty)) name")
    case None
    then show ?thesis using Cons.prems Cons.IH[of items st] by (simp only: step option.case)
  next
    case (Some f)
    show ?thesis
    proof (cases f)
      case Corrupt
      then show ?thesis using Some Cons.prems Cons.IH[of items st]
        by (simp only: step option.case file_content.case)
    next
      case (Valid item)
      show ?thesis
      proof (cases "expired item now")
        case True
        then show ?thesis using Some Valid Cons.prems Cons.IH[of items "unlink st ty name"]
          by (simp only: step option.case file_content.case if_True)
      next
        case False
        show ?thesis
        proof (cases "case flt of None \<Rightarrow> True | Some f \<Rightarrow> matches (metadata item) f")
          case True
          have "r \<in> set (fst (list_loop ty flt now names (items @ [item]) st))"
            using Some Valid False True Cons.prems
            by (simp only: step option.case file_content.case if_False if_True)
          from Cons.IH[OF this] show ?thesis using False by auto
        next
          case nomatch: False
          have "r \<in> set (fst (list_loop ty flt now names items st))"
            using Some Valid False nomatch Cons.prems
            by (simp only: step option.case file_content.case if_False)
          from Cons.IH[OF this] show ?thesis .
        qed
      qed
    qed
  qed
qed

lemma list_loop_files:
  "map_of (files (dir_of (snd (list_loop ty flt now names items st)) ty)) n =
     (if n \<in> set names \<and> expired_file st ty now n then None
      else map_of (files (dir_of st ty)) n)"
proof (induction names arbitrary: items st)
  case Nil
  then show ?case by simp
next
  case (Cons name names)
  note step = list_loop_step[of ty flt now name names items st]
  have keep: ?case
    if eq: "\<And>n. map_of (files (dir_of st' ty)) n = map_of (files (dir_of st ty)) n"
      and run: "list_loop ty flt now (name # names) items st = list_loop ty flt now names items' st'"
      and ne: "\<not> expired_file st ty now name" for items' st'
  proof -
    have "expired_file st' ty now n = expired_file st ty now n"
      by (simp add: expired_file_def eq)
    then show ?thesis
      using Cons.IH[of items' st'] ne by (auto simp: run eq)
  qed
  show ?case
  proof (cases "map_of (files (dir_of st ty)) name")
    case None
    then have "\<not> expired_file st ty now name" by (simp add: expired_file_def)
    moreover have "list_loop ty flt now (name # names) items st = list_loop ty flt now names items st"
      using None by (simp only: step option.case)
    ultimately show ?thesis using keep[of st items] by simp
  next
    case (Some f)
    show ?thesis
    proof (cases f)
      case Corrupt
      then have "\<not> expired_file st ty now name" using Some by (simp add: expired_file_def)
      moreover have "list_loop ty flt now (name # names) items st = list_loop ty flt now names items st"
        using Some Corrupt by (simp only: step option.case file_content.case)
      ultimately show ?thesis using keep[of st items] by simp
    next
      case (Valid item)
      show ?thesis
      proof (cases "expired item now")
        case True
        have run: "list_loop ty flt now (name # names) items st =
                   list_loop ty flt now names items (unlink st ty name)"
          using Some Valid True by (simp only: step option.case file_content.case if_True)
        have ex: "expired_file st ty now name" using Some Valid True by (simp add: expired_file_def)
        have other: "expired_file (unlink st ty name) ty now n = (n \<noteq> name \<and> expired_file st ty now n)"
          by (auto simp: expired_file_def)
        show ?thesis
          using Cons.IH[of items "unlink st ty name"] ex other by (auto simp: run)
      next
        case False
        then have ne: "\<not> expired_file st ty now name" using Some Valid by (simp add: expired_file_def)
        show ?thesis
        proof (cases "case flt of None \<Rightarrow> True | Some f \<Rightarrow> matches (metadata item) f")
          case True
          have "list_loop ty flt now (name # names) items st =
                list_loop ty flt now names (items @ [item]) st"
            using Some Valid False True
            by (simp only: step option.case file_content.case if_False if_True)
          then show ?thesis using keep[of st "items @ [item]"] ne by simp
        next
          case nomatch: False
          have "list_loop ty flt now (name # names) items st = list_loop ty flt now names items st"
            using Some Valid False nomatch
            by (simp only: step option.case file_content.case if_False)
          then show ?thesis using keep[of st items] ne by simp
        qed
      qed
    qed
  qed
qed

lemma list_items_unexpired:
  "r \<in> set (fst (list_items ty flt now st)) \<Longrightarrow> \<not> expired r now"
  using list_loop_items[of r ty flt now "map fst (files (dir_of st ty))" "[]" st]
  by (simp add: list_items_def split_def Let_def)

lemma list_items_sweeps:
  assumes "map_of (files (dir_of (snd (list_items ty flt now st)) ty)) n = Some (Valid r)"
  shows "\<not> expired r now"
proof
  assume e: "expired r now"
  let ?names = "map fst (files (dir_of st ty))"
  have eq: "snd (list_items ty flt now st) = snd (list_loop ty flt now ?names [] st)"
    by (simp add: list_items_def split_def Let_def)
  have m: "map_of (files (dir_of (snd (list_loop ty flt now ?names [] st)) ty)) n = Some (Valid r)"
    using assms eq by simp
  then have old: "map_of (files (dir_of st ty)) n = Some (Valid r)"
    by (simp add: list_loop_files split: if_splits)
  then have "n \<in> set ?names"
    by (metis map_of_eq_None_iff option.distinct(1) set_map)
  moreover have "expired_file st ty now n" using old e by (simp add: expired_file_def)
  ultimately show False using m by (simp add: list_loop_files)
qed


lemma store_result:
  "store E ty key dat meta ttl now st = (ident, st') \<Longrightarrow>
   ident = generateId E key now \<and>
   (\<exists>sd. map_of (files (dir_of st' ty)) ident = Some (Valid sd) \<and> data sd = dat \<and>
      rec_id sd = ident \<and>
      expiresAt sd = Some (case ttl of None \<Rightarrow> now + maxCacheAge E
                            | Some t \<Rightarrow> if t \<noteq> 0 then now + t else now + maxCacheAge E)) \<and>
   (key \<noteq> ''__proto__'' \<longrightarrow> map_of (index (dir_of st' ty)) key = Some ident)"
  by (auto simp: store_def Let_def)

lemma retrieve_by_name:
  assumes "map_of (files (dir_of st ty)) name = Some (Valid sd)"
  shows "retrieve ty name now st = (if expired sd now then (None, unlink st ty name) else (Some sd, st))"
  using assms by (simp add: retrieve_def resolve_def fileExists_def)

text \<open>
  Reads and expiry, for names that are plain file names. In every namespace
  \<^verbatim>\<open>retrieve\<close> returns unexpired records only, and when the id or key resolves to an
  expired record it deletes the file and returns not-found; \<^verbatim>\<open>list\<close> returns unexpired
  records only and leaves no expired record in the directory. A record stored with a
  time to live \<open>T \<noteq> 0\<close> at time \<open>t0\<close> is returned, by its id and by its key, at every
  time up to \<open>t0 + T\<close>, and after \<open>t0 + T\<close> the read returns not-found and deletes it.
\<close>

lemma stored_record_by_key:
  assumes s: "store E ty key dat meta ttl t0 st0 = (ident, st')"
    and k: "\<not> fileExists (dir_of st' ty) key" "key \<noteq> ''__proto__''"
  shows "retrieve ty key now st' = retrieve ty ident now st'"
proof -
  from store_result[OF s] k(2) obtain sd where
    sd: "map_of (files (dir_of st' ty)) ident = Some (Valid sd)"
      "map_of (index (dir_of st' ty)) key = Some ident" "ident = generateId E key t0"
    by auto
  have "ident \<noteq> []" using sd(3) by (simp add: generateId_def)
  then have "resolve (dir_of st' ty) key = Some ident"
    using k(1) sd(2) by (simp add: resolve_def findIdByKey_def)
  moreover have "resolve (dir_of st' ty) ident = Some ident"
    using sd(1) by (simp add: resolve_def fileExists_def)
  ultimately show ?thesis by (simp add: retrieve_def)
qed

lemma expired_records_are_not_read:
  "(fst (retrieve ty keyOrId now st) = Some r \<longrightarrow> \<not> expired r now) \<and>
   (plain_name keyOrId \<and> resolve (dir_of st ty) keyOrId = Some name \<and>
      map_of (files (dir_of st ty)) name = Some (Valid r') \<and> expired r' now \<longrightarrow>
        fst (retrieve ty keyOrId now st) = None \<and>
        \<not> fileExists (dir_of (snd (retrieve ty keyOrId now st)) ty) name) \<and>
   (r'' \<in> set (fst (list_items ty flt now st)) \<longrightarrow> \<not> expired r'' now) \<and>
   (map_of (files (dir_of (snd (list_items ty flt now st)) ty)) name' = Some (Valid r3) \<longrightarrow>
        \<not> expired r3 now) \<and>
   (T \<noteq> 0 \<and> store E ty key dat meta (Some T) t0 st0 = (ident, st') \<longrightarrow>
        (now \<le> t0 + T \<longrightarrow> map_option data (fst (retrieve ty ident now st')) = Some dat) \<and>
        (t0 + T < now \<longrightarrow> fst (retrieve ty ident now st') = None \<and>
           \<not> fileExists (dir_of (snd (retrieve ty ident now st')) ty) ident) \<and>
        (plain_name key \<and> key \<noteq> ''__proto__'' \<and> \<not> fileExists (dir_of st' ty) key \<longrightarrow>
           retrieve ty key now st' = retrieve ty ident now st'))"
proof -
  have 1: "fst (retrieve ty keyOrId now st) = Some r \<longrightarrow> \<not> expired r now"
    using retrieve_not_expired by blast
  have 2: "plain_name keyOrId \<and> resolve (dir_of st ty) keyOrId = Some name \<and>
      map_of (files (dir_of st ty)) name = Some (Valid r') \<and> expired r' now \<longrightarrow>
        fst (retrieve ty keyOrId now st) = None \<and>
        \<not> fileExists (dir_of (snd (retrieve ty keyOrId now st)) ty) name"
    by (simp add: retrieve_expired fileExists_def)
  have 3: "r'' \<in> set (fst (list_items ty flt now st)) \<longrightarrow> \<not> expired r'' now"
    using list_items_unexpired by blast
  have 4: "map_of (files (dir_of (snd (list_items ty flt now st)) ty)) name' = Some (Valid r3) \<longrightarrow>
        \<not> expired r3 now"
    using list_items_sweeps by blast
  have 5: "(now \<le> t0 + T \<longrightarrow> map_option data (fst (retrieve ty ident now st')) = Some dat) \<and>
        (t0 + T < now \<longrightarrow> fst (retrieve ty ident now st') = None \<and>
           \<not> fileExists (dir_of (snd (retrieve ty ident now st')) ty) ident) \<and>
        (plain_name key \<and> key \<noteq> ''__proto__'' \<and> \<not> fileExists (dir_of st' ty) key \<longrightarrow>
           retrieve ty key now st' = retrieve ty ident now st')"
    if "T \<noteq> 0" and s: "store E ty key dat meta (Some T) t0 st0 = (ident, st')"
  proof -
    from store_result[OF s] that(1) obtain sd where
      sd: "map_of (files (dir_of st' ty)) ident = Some (Valid sd)" "data sd = dat"
        "expiresAt sd = Some (t0 + T)" by auto
    have e: "expired sd now \<longleftrightarrow> t0 + T < now" using sd(3) by (simp add: expired_def)
    show ?thesis
      using retrieve_by_name[OF sd(1), of now] e sd(2) stored_record_by_key[OF s]
      by (auto simp: fileExists_def)
  qed
  show ?thesis using 1 2 3 4 5 by blast
qed

lemma stored_once_eq:
  "stored_once = empty_storage\<lparr>cache_dir := \<lparr>files = [(''8ce4b16b-1000'',
       Valid \<lparr>rec_id = ''8ce4b16b-1000'', rec_type = Cache, timestamp = 1000,
         expiresAt = Some 1100, metadata = [(''key'', JStr ''k''), (''size'', JNum 2)],
         data = JNum 1\<rparr>)], index = [(''k'', ''8ce4b16b-1000'')]\<rparr>\<rparr>"
  by (simp add: stored_once_def store_def Let_def generateId_example writeFile_def updateIndex_def empty_storage_def obj_assign_def
      empty_directory_def)

lemma stored_once_reads:
  "store example_env Cache ''k'' (JNum 1) [] (Some 100) 1000 empty_storage = (''8ce4b16b-1000'', stored_once)"
  "map_option data (fst (retrieve Cache ''8ce4b16b-1000'' 1100 stored_once)) = Some (JNum 1)"
  "map_option data (fst (retrieve Cache ''k'' 1100 stored_once)) = Some (JNum 1)"
  "fst (retrieve Cache ''8ce4b16b-1000'' 1101 stored_once) = None"
  "fst (retrieve Cache ''k'' 1101 stored_once) = None"
  "files (dir_of (snd (retrieve Cache ''k'' 1101 stored_once)) Cache) = []"
  "length (fst (list_items Cache None 1100 stored_once)) = 1"
  "fst (list_items Cache None 1101 stored_once) = []"
  "files (dir_of (snd (list_items Cache None 1101 stored_once)) Cache) = []"
  by (simp_all add: stored_once_def store_def Let_def generateId_example writeFile_def
      updateIndex_def empty_storage_def obj_assign_def empty_directory_def retrieve_def
      resolve_def fileExists_def findIdByKey_def expired_def unlink_def list_items_def
      list_loop_step)

text \<open>
  C1. The claim (a record stored with \<^verbatim>\<open>ttl = T\<close> returns not-found after \<open>T\<close> has
  elapsed) is what \<^verbatim>\<open>store\<close> sets out to do: it computes
  \<^verbatim>\<open>expiresAt = Date.now() + ttl\<close>, and a record written at time 1000 with
  \<^verbatim>\<open>ttl = 1\<close> is gone at time 1002. The test \<^verbatim>\<open>ttl ? ... : ...\<close> is on the truthiness
  of the number, though, so \<^verbatim>\<open>ttl = 0\<close> takes the branch of the missing argument: the
  record written at time 1000 with \<^verbatim>\<open>ttl = 0\<close> gets the default maximal age of 24 hours
  as its expiry and is still returned, by its id and by its key, at time 1001 and a full
  hour later.
\<close>

theorem store_ttl_zero_outlives_ttl:
  "fst (store example_env Cache ''k'' (JNum 1) [] (Some 0) 1000 empty_storage) = ''8ce4b16b-1000'' \<and>
   map_option expiresAt (fst (retrieve Cache ''8ce4b16b-1000'' 1001
     (snd (store example_env Cache ''k'' (JNum 1) [] (Some 0) 1000 empty_storage)))) =
       Some (Some 86401000) \<and>
   map_option data (fst (retrieve Cache ''8ce4b16b-1000'' 1001
     (snd (store example_env Cache ''k'' (JNum 1) [] (Some 0) 1000 empty_storage)))) = Some (JNum 1) \<and>
   map_option data (fst (retrieve Cache ''k'' 3601000
     (snd (store example_env Cache ''k'' (JNum 1) [] (Some 0) 1000 empty_storage)))) = Some (JNum 1) \<and>
   map data (fst (list_items Cache None 1001
     (snd (store example_env Cache ''k'' (JNum 1) [] (Some 0) 1000 empty_storage)))) = [JNum 1] \<and>
   fst (retrieve Cache ''8ce4b16b-1000'' 1002
     (snd (store example_env Cache ''k'' (JNum 1) [] (Some 1) 1000 empty_storage))) = None"
  by (simp add: store_def Let_def generateId_example writeFile_def updateIndex_def empty_storage_def obj_assign_def
      empty_directory_def retrieve_def resolve_def fileExists_def findIdByKey_def expired_def
      list_items_def list_loop_step)
subsection \<open>Objects and sessions\<close>

lemma map_of_foldl_update:
  "map_of (foldl (\<lambda>obj (k, v). AList.update k v obj) t s) k =
     (case map_of (rev s) k of Some v \<Rightarrow> Some v | None \<Rightarrow> map_of t k)"
proof (induction s arbitrary: t)
  case Nil
  show ?case by simp
next
  case (Cons x s)
  obtain k' v' where x: "x = (k', v')" by (cases x)
  show ?case
    using Cons.IH[of "AList.update k' v' t"]
    by (simp add: x update_conv map_add_def split: option.splits)
qed

lemma map_of_obj_assign:
  "distinct (map fst s) \<Longrightarrow>
   map_of (obj_assign t s) k = (case map_of s k of Some v \<Rightarrow> Some v | None \<Rightarrow> map_of t k)"
proof -
  assume d: "distinct (map fst s)"
  have "map_of (rev s) = map_of s"
  proof (rule ext)
    fix x
    show "map_of (rev s) x = map_of s x"
      using d by (metis distinct_rev map_of_inject_set rev_map set_rev)
  qed
  then show ?thesis by (simp add: obj_assign_def map_of_foldl_update)
qed


lemma distinct_decimal_upt: "distinct (map decimal [0..<n])"
  by (simp add: distinct_map inj_on_def decimal_inj)

lemma distinct_spread: "distinct (map fst (spread v))"
  by (cases v) (simp_all add: distinct_decimal_upt)

lemma retrieve_cases:
  "retrieve ty keyOrId now st = (None, st) \<or>
   (\<exists>name. resolve (dir_of st ty) keyOrId = Some name \<and> expired_file st ty now name \<and>
       retrieve ty keyOrId now st = (None, unlink st ty name)) \<or>
   (\<exists>name r. resolve (dir_of st ty) keyOrId = Some name \<and>
       map_of (files (dir_of st ty)) name = Some (Valid r) \<and> \<not> expired r now \<and>
       retrieve ty keyOrId now st = (Some r, st))"
  by (auto simp: retrieve_def expired_file_def split: option.splits file_content.splits)

lemma retrieve_Some_iff:
  "fst (retrieve ty keyOrId now st) = Some r \<longleftrightarrow>
   (\<exists>name. resolve (dir_of st ty) keyOrId = Some name \<and>
       map_of (files (dir_of st ty)) name = Some (Valid r) \<and> \<not> expired r now)"
  by (auto simp: retrieve_def split: option.splits file_content.splits)

lemma retrieve_after_write:
  assumes "\<not> expired sd now"
  shows "retrieve ty name now (writeFile st ty name (Valid sd)) =
           (Some sd, writeFile st ty name (Valid sd))"
  using assms by (simp add: retrieve_def resolve_def fileExists_def)

lemma expired_mergeSession [simp]:
  "expired (mergeSession E session updates now') now = expired session now"
  by (simp add: expired_def mergeSession_def)

lemma merged_fields:
  "data (mergeSession E session updates now) = JObj props \<Longrightarrow>
   map_of props k =
     (if k = ''lastUpdated'' then Some (JStr (toISOString E now))
      else case map_of (spread updates) k of
             Some v \<Rightarrow> Some v
           | None \<Rightarrow> map_of (spread (data session)) k)"
  by (auto simp: mergeSession_def map_of_obj_assign distinct_spread split: option.splits)

text \<open>
  What a successful \<^verbatim>\<open>updateSession\<close> writes: the record that the session id resolved
  to, with its payload replaced by the shallow merge of the old payload, the updates and
  the stamp \<open>lastUpdated\<close>. The payload of a session record is the object
  \<^verbatim>\<open>{ sessionId, sessionType, state, steps, data, createdAt }\<close> that \<^verbatim>\<open>createSession\<close>
  stored, so the updates land beside the \<open>data\<close> property of the session, not in it.
\<close>

lemma updateSession_writes_merge:
  assumes "resolve (dir_of st Session) sessionId = Some name'"
    and "map_of (files (dir_of st Session)) name' = Some (Valid session)"
    and "\<not> expired session now"
  shows "updateSession E sessionId updates now st =
           (Inr (), writeFile st Session sessionId (Valid (mergeSession E session updates now)))"
    and "fst (retrieve Session sessionId now (snd (updateSession E sessionId updates now st))) =
           Some (mergeSession E session updates now)"
proof -
  have "retrieve Session sessionId now st = (Some session, st)"
    using assms by (simp add: retrieve_def)
  then show u: "updateSession E sessionId updates now st =
           (Inr (), writeFile st Session sessionId (Valid (mergeSession E session updates now)))"
    by (simp add: updateSession_def)
  show "fst (retrieve Session sessionId now (snd (updateSession E sessionId updates now st))) =
           Some (mergeSession E session updates now)"
    using assms(3) by (simp add: u retrieve_after_write)
qed

text \<open>
  C8, amended. For a session id that is a plain file name,
  \<^verbatim>\<open>updateSession(sessionId, updates)\<close> fails with the session-not-found error if and
  only if no unexpired record resolves for the session id in the session namespace. In
  that error case no record is created or modified: the store is unchanged, or it differs
  by the deletion of the expired record the session id resolved to. Otherwise the call
  returns normally.
\<close>

theorem updateSession_not_found_iff:
  assumes "plain_name sessionId"
  shows
  "(fst (updateSession E sessionId updates now st) = Inl (SessionNotFound sessionId) \<longleftrightarrow>
      \<not> (\<exists>name r. resolve (dir_of st Session) sessionId = Some name \<and>
             map_of (files (dir_of st Session)) name = Some (Valid r) \<and> \<not> expired r now)) \<and>
   (fst (updateSession E sessionId updates now st) = Inl (SessionNotFound sessionId) \<longrightarrow>
      snd (updateSession E sessionId updates now st) = st \<or>
      (\<exists>name. resolve (dir_of st Session) sessionId = Some name \<and>
          expired_file st Session now name \<and>
          snd (updateSession E sessionId updates now st) = unlink st Session name)) \<and>
   (fst (updateSession E sessionId updates now st) \<noteq> Inl (SessionNotFound sessionId) \<longrightarrow>
      fst (updateSession E sessionId updates now st) = Inr ())"
proof -
  let ?u = "updateSession E sessionId updates now st"
  let ?found = "\<exists>name r. resolve (dir_of st Session) sessionId = Some name \<and>
             map_of (files (dir_of st Session)) name = Some (Valid r) \<and> \<not> expired r now"
  have iff: "fst ?u = Inl (SessionNotFound sessionId) \<longleftrightarrow> fst (retrieve Session sessionId now st) = None"
    by (simp add: updateSession_def split: prod.splits option.splits)
  have none: "fst (retrieve Session sessionId now st) = None \<longleftrightarrow> \<not> ?found"
    using retrieve_Some_iff[of Session sessionId now st] by (metis not_Some_eq)
  have a: "fst ?u = Inl (SessionNotFound sessionId) \<longleftrightarrow> \<not> ?found"
    using iff none by simp
  have b: "snd ?u = st \<or>
      (\<exists>name. resolve (dir_of st Session) sessionId = Some name \<and>
          expired_file st Session now name \<and> snd ?u = unlink st Session name)"
    if "fst ?u = Inl (SessionNotFound sessionId)"
  proof -
    from that iff have n: "fst (retrieve Session sessionId now st) = None" by simp
    then have "snd ?u = snd (retrieve Session sessionId now st)"
      by (cases "retrieve Session sessionId now st") (simp add: updateSession_def)
    then show ?thesis
      using retrieve_cases[of Session sessionId now st] n by auto
  qed
  have c: "fst ?u = Inr ()" if "fst ?u \<noteq> Inl (SessionNotFound sessionId)"
    using that by (simp add: updateSession_def split: prod.splits option.splits)
  show ?thesis using a b c by blast
qed

lemma generateId_session:
  "generateId example_env ''session-t'' 1000 = ''28a07e0c-1000''"
  "generateId example_env ''28a07e0c-1000'' 1000 = ''55bec1bd-1000''"
  by (simp_all add: generateId_def show_int_def example_md5_def decimal.simps)

lemma createSession_example:
  "createSession example_env ''t'' (JObj [(''initial'', JStr ''data'')]) 1000 empty_storage =
     (''28a07e0c-1000'', session_created)"
  by (simp add: session_created_def createSession_def Let_def generateId_session split_def)

lemma session_created_eq:
  "session_created = empty_storage\<lparr>session_dir :=
      \<lparr>files = [(''55bec1bd-1000'', Valid session_record)],
       index = [(''28a07e0c-1000'', ''55bec1bd-1000'')]\<rparr>\<rparr>"
  by (simp add: session_created_def createSession_def Let_def generateId_session store_def
      writeFile_def updateIndex_def empty_storage_def empty_directory_def obj_assign_def
      session_record_def show_int_def decimal.simps)

lemma session_resolves:
  "resolve (dir_of session_created Session) ''28a07e0c-1000'' = Some ''55bec1bd-1000''"
  "map_of (files (dir_of session_created Session)) ''55bec1bd-1000'' = Some (Valid session_record)"
  "resolve (dir_of session_created Session) ''nosuch'' = None"
  by (simp_all add: session_created_eq resolve_def fileExists_def findIdByKey_def empty_storage_def)

text \<open>
  C8. As stated (state unchanged on error) the claim fails when the session has expired:
  the read inside \<^verbatim>\<open>updateSession\<close> deletes the expired record before the error is
  raised.
\<close>

theorem updateSession_expired_counterexample:
  "fst (updateSession example_env ''28a07e0c-1000'' (JObj []) 86401001 session_created) =
     Inl (SessionNotFound ''28a07e0c-1000'') \<and>
   snd (updateSession example_env ''28a07e0c-1000'' (JObj []) 86401001 session_created) \<noteq>
     session_created \<and>
   files (session_dir session_created) = [(''55bec1bd-1000'', Valid session_record)] \<and>
   files (session_dir (snd (updateSession example_env ''28a07e0c-1000'' (JObj []) 86401001
     session_created))) = []"
proof -
  have e: "expired session_record 86401001" by (simp add: expired_def session_record_def)
  have r: "retrieve Session ''28a07e0c-1000'' 86401001 session_created =
           (None, unlink session_created Session ''55bec1bd-1000'')"
    using retrieve_expired[OF session_resolves(1) session_resolves(2) e] .
  have u: "updateSession example_env ''28a07e0c-1000'' (JObj []) 86401001 session_created =
           (Inl (SessionNotFound ''28a07e0c-1000''), unlink session_created Session ''55bec1bd-1000'')"
    by (simp add: updateSession_def r)
  have f: "files (session_dir session_created) = [(''55bec1bd-1000'', Valid session_record)]"
    by (simp add: session_created_eq empty_storage_def)
  have g: "files (session_dir (unlink session_created Session ''55bec1bd-1000'')) = []"
    by (simp add: session_created_eq unlink_def empty_storage_def)
  have "unlink session_created Session ''55bec1bd-1000'' \<noteq> session_created"
    using f g by auto
  then show ?thesis using u f g by simp
qed

lemma updateSession_example:
  "fst (retrieve Session ''28a07e0c-1000'' 2000
     (snd (updateSession example_env ''28a07e0c-1000'' (JObj [(''additional'', JStr ''info'')]) 2000
        session_created))) =
     Some (session_record\<lparr>data :=
           JObj [(''sessionId'', JStr ''28a07e0c-1000''), (''sessionType'', JStr ''t''),
                 (''state'', JStr ''active''), (''steps'', JArr []),
                 (''data'', JObj [(''initial'', JStr ''data'')]), (''createdAt'', JStr ''1000''),
                 (''additional'', JStr ''info''), (''lastUpdated'', JStr ''2000'')]\<rparr>)"
proof -
  have ne: "\<not> expired session_record 2000" by (simp add: expired_def session_record_def)
  have m: "mergeSession example_env session_record (JObj [(''additional'', JStr ''info'')]) 2000 =
       session_record\<lparr>data :=
           JObj [(''sessionId'', JStr ''28a07e0c-1000''), (''sessionType'', JStr ''t''),
                 (''state'', JStr ''active''), (''steps'', JArr []),
                 (''data'', JObj [(''initial'', JStr ''data'')]), (''createdAt'', JStr ''1000''),
                 (''additional'', JStr ''info''), (''lastUpdated'', JStr ''2000'')]\<rparr>"
    by (simp add: mergeSession_def session_record_def obj_assign_def show_int_def decimal.simps)
  show ?thesis
    using updateSession_writes_merge(2)[OF session_resolves(1) session_resolves(2) ne] m by simp
qed

theorem updateSession_not_found_iff_witness:
  "plain_name ''28a07e0c-1000'' \<and> plain_name ''nosuch'' \<and>
   fst (updateSession example_env ''28a07e0c-1000'' (JObj [(''additional'', JStr ''info'')]) 2000
      session_created) = Inr () \<and>
   updateSession example_env ''nosuch'' (JObj []) 2000 session_created =
     (Inl (SessionNotFound ''nosuch''), session_created) \<and>
   updateSession example_env ''28a07e0c-1000'' (JObj []) 86401001 session_created =
     (Inl (SessionNotFound ''28a07e0c-1000''), unlink session_created Session ''55bec1bd-1000'')"
proof -
  have p: "plain_name ''28a07e0c-1000''" "plain_name ''nosuch''"
    by (simp_all add: plain_name_def)
  have ne: "\<not> expired session_record 2000" by (simp add: expired_def session_record_def)
  have e: "expired session_record 86401001" by (simp add: expired_def session_record_def)
  have n1: "fst (updateSession example_env ''nosuch'' (JObj []) 2000 session_created) =
              Inl (SessionNotFound ''nosuch'')"
    using updateSession_not_found_iff[OF p(2), where E = example_env
        and updates = "JObj []" and now = 2000 and st = session_created] session_resolves(3)
    by simp
  have n1s: "snd (updateSession example_env ''nosuch'' (JObj []) 2000 session_created) = session_created"
    using updateSession_not_found_iff[OF p(2), where E = example_env
        and updates = "JObj []" and now = 2000 and st = session_created] session_resolves(3) n1
    by simp
  have n2: "fst (updateSession example_env ''28a07e0c-1000'' (JObj []) 86401001 session_created) =
              Inl (SessionNotFound ''28a07e0c-1000'')"
    using updateSession_not_found_iff[OF p(1), where E = example_env
        and updates = "JObj []" and now = 86401001 and st = session_created]
      session_resolves(1,2) e
    by simp
  have n2s: "snd (updateSession example_env ''28a07e0c-1000'' (JObj []) 86401001 session_created) =
              unlink session_created Session ''55bec1bd-1000''"
    using retrieve_expired[OF session_resolves(1) session_resolves(2) e]
    by (simp add: updateSession_def)
  have ok: "fst (updateSession example_env ''28a07e0c-1000'' (JObj [(''additional'', JStr ''info'')]) 2000
      session_created) = Inr ()"
    using updateSession_not_found_iff[OF p(1), where E = example_env
        and updates = "JObj [(''additional'', JStr ''info'')]" and now = 2000 and st = session_created]
      session_resolves(1,2) ne
    by auto
  show ?thesis
    using p ok n1 n1s n2 n2s by (simp add: prod_eq_iff)
qed
subsection \<open>Datasets: an example\<close>

lemma hex_digest_example: "hex_digest example_env"
  by (simp add: hex_digest_def example_md5_def)

lemma generateId_dataset:
  "generateId example_env ''dataset-ds'' 999 = ''a690eccf-999''"
  "generateId example_env ''ds-chunk-0'' 1000 = ''97024479-1000''"
  "generateId example_env ''ds-chunk-2'' 1001 = ''eb71316e-1001''"
  "generateId example_env ''dataset-ds'' 1002 = ''a690eccf-1002''"
  by (simp_all add: generateId_def show_int_def example_md5_def decimal.simps)

lemma decimal_examples:
  "decimal 0 = ''0''" "decimal 2 = ''2''" "decimal (Suc (Suc 0)) = ''2''"
  by (simp_all add: decimal.simps)

lemma datasetWriteIds_example:
  "datasetWriteIds example_env ''ds'' 3 2 example_clock =
     [''97024479-1000'', ''eb71316e-1001'', ''a690eccf-1002'']"
proof -
  have n: "chunkCount 3 2 = 2" by (simp add: chunkCount_def)
  have u: "[0..<2] = [0, Suc 0]" by (simp add: upt_rec numeral_2_eq_2)
  show ?thesis
    by (simp add: datasetWriteIds_def n u chunkWriteId_def example_clock_def decimal_examples
        generateId_dataset)
qed

lemma storeDataset_example:
  "storeDataset example_env ''ds'' [JNum 1, JNum 2, JNum 3] 2 [] 999 example_clock empty_storage =
     Some (''a690eccf-999'',
       empty_storage\<lparr>cache_dir :=
         \<lparr>files = [(''97024479-1000'', Valid chunk_record_0),
                   (''eb71316e-1001'', Valid chunk_record_1),
                   (''a690eccf-1002'', Valid manifest_record)],
          index = [(''ds-chunk-0'', ''97024479-1000''), (''ds-chunk-2'', ''eb71316e-1001''),
                   (''dataset-ds'', ''a690eccf-1002'')]\<rparr>\<rparr>)"
  by (simp add: storeDataset_def storeChunks.simps Let_def store_def generateId_dataset
      decimal_examples example_clock_def chunkMetadata_def manifest_def obj_assign_def
      writeFile_def updateIndex_def empty_storage_def empty_directory_def
      chunk_record_0_def chunk_record_1_def manifest_record_def)

lemma dataset_stored_eq:
  "dataset_stored = empty_storage\<lparr>cache_dir :=
         \<lparr>files = [(''97024479-1000'', Valid chunk_record_0),
                   (''eb71316e-1001'', Valid chunk_record_1),
                   (''a690eccf-1002'', Valid manifest_record)],
          index = [(''ds-chunk-0'', ''97024479-1000''), (''ds-chunk-2'', ''eb71316e-1001''),
                   (''dataset-ds'', ''a690eccf-1002'')]\<rparr>\<rparr>"
  by (simp add: dataset_stored_def storeDataset_example)

lemma dataset_stored_facts:
  "resolve (cache_dir dataset_stored) (''dataset-'' @ ''ds'') = Some ''a690eccf-1002''"
  "resolve (cache_dir dataset_stored) (''dataset-'' @ ''other'') = None"
  "map_of (files (cache_dir dataset_stored)) ''a690eccf-1002'' = Some (Valid manifest_record)"
  "chunksOf manifest_record = Some [JStr ''97024479-1000'', JStr ''eb71316e-1001'']"
  "findIdByKey (cache_dir dataset_stored) ''97024479-1000'' = None"
  "findIdByKey (cache_dir dataset_stored) ''eb71316e-1001'' = None"
  by (simp_all add: dataset_stored_eq resolve_def fileExists_def findIdByKey_def empty_storage_def
      chunksOf_def manifest_record_def)

lemma dataset_stored_chunkItems:
  "chunkItems dataset_stored 86401001 ''97024479-1000'' = Some []"
  "chunkItems dataset_stored 86401001 ''eb71316e-1001'' = Some [JNum 3]"
  "chunkItems dataset_stored 5000 ''97024479-1000'' = Some [JNum 1, JNum 2]"
  "chunkItems dataset_stored 5000 ''eb71316e-1001'' = Some [JNum 3]"
  by (simp_all add: dataset_stored_eq chunkItems_def empty_storage_def expired_def
      chunk_record_0_def chunk_record_1_def)

subsection \<open>Datasets: reading\<close>

lemma retrieve_by_name_only:
  assumes "findIdByKey (dir_of st ty) name = None"
  shows "retrieve ty name now st =
     (case map_of (files (dir_of st ty)) name of
        Some (Valid sd) \<Rightarrow> if expired sd now then (None, unlink st ty name) else (Some sd, st)
      | _ \<Rightarrow> (None, st))"
  using assms
  by (simp add: retrieve_def resolve_def fileExists_def split: option.splits file_content.splits)

lemma findIdByKey_unlink [simp]:
  "findIdByKey (dir_of (unlink st ty name) ty') k = findIdByKey (dir_of st ty') k"
  by (simp add: findIdByKey_def)

lemma chunkItems_unlink:
  assumes "map_of (files (cache_dir st)) name = Some (Valid sd)" and "expired sd now"
  shows "chunkItems (unlink st Cache name) now c = chunkItems st now c"
proof -
  have "map_of (files (cache_dir (unlink st Cache name))) c =
        (if c = name then None else map_of (files (cache_dir st)) c)"
    using files_unlink[of st Cache name Cache c] by simp
  then show ?thesis using assms by (simp add: chunkItems_def)
qed

lemma loadChunks_by_name:
  assumes "\<forall>c \<in> set ids. findIdByKey (cache_dir st) (chunkName E c) = None"
  shows "fst (loadChunks E now ids acc st) =
     (case those (map (\<lambda>c. chunkItems st now (chunkName E c)) ids) of
        None \<Rightarrow> Inl TypeError
      | Some parts \<Rightarrow> Inr (Some (acc @ concat parts)))"
  using assms
proof (induction ids arbitrary: acc st)
  case Nil
  show ?case by simp
next
  case (Cons c ids)
  let ?name = "chunkName E c"
  have noidx: "findIdByKey (dir_of st Cache) ?name = None" using Cons.prems by simp
  have rest: "\<forall>c \<in> set ids. findIdByKey (cache_dir st) (chunkName E c) = None"
    using Cons.prems by simp
  note r = retrieve_by_name_only[OF noidx, of now]
  show ?case
  proof (cases "map_of (files (cache_dir st)) ?name")
    case None
    then have "retrieve Cache ?name now st = (None, st)" using r by simp
    moreover have "chunkItems st now ?name = Some []" using None by (simp add: chunkItems_def)
    ultimately show ?thesis using Cons.IH[OF rest, of acc] by (simp split: option.splits)
  next
    case (Some f)
    show ?thesis
    proof (cases f)
      case Corrupt
      then have "retrieve Cache ?name now st = (None, st)" using r Some by simp
      moreover have "chunkItems st now ?name = Some []" using Some Corrupt by (simp add: chunkItems_def)
      ultimately show ?thesis using Cons.IH[OF rest, of acc] by (simp split: option.splits)
    next
      case (Valid sd)
      show ?thesis
      proof (cases "expired sd now")
        case True
        let ?st' = "unlink st Cache ?name"
        have ret: "retrieve Cache ?name now st = (None, ?st')" using r Some Valid True by simp
        have here: "chunkItems st now ?name = Some []" using Some Valid True by (simp add: chunkItems_def)
        have rest': "\<forall>c \<in> set ids. findIdByKey (cache_dir ?st') (chunkName E c) = None"
          using rest findIdByKey_unlink[of st Cache ?name Cache] by simp
        have same: "map (\<lambda>c. chunkItems ?st' now (chunkName E c)) ids =
                    map (\<lambda>c. chunkItems st now (chunkName E c)) ids"
          using chunkItems_unlink[of st ?name sd now] Some Valid True by simp
        show ?thesis
          using Cons.IH[OF rest', of acc] ret here same by (simp split: option.splits)
      next
        case False
        have ret: "retrieve Cache ?name now st = (Some sd, st)" using r Some Valid False by simp
        have here: "chunkItems st now ?name = iterate (data sd)"
          using Some Valid False by (simp add: chunkItems_def)
        show ?thesis
        proof (cases "iterate (data sd)")
          case None
          then show ?thesis using ret here by simp
        next
          case (Some items)
          then show ?thesis
            using Cons.IH[OF rest, of "acc @ items"] ret here by (simp split: option.splits)
        qed
      qed
    qed
  qed
qed

lemma loadChunks_not_None: "fst (loadChunks E now ids acc st) \<noteq> Inr None"
proof (induction ids arbitrary: acc st)
  case Nil
  show ?case by simp
next
  case (Cons c ids)
  show ?case
  proof (cases "retrieve Cache (chunkName E c) now st")
    case (Pair found st')
    show ?thesis
    proof (cases found)
      case None
      then show ?thesis using Pair Cons.IH[of acc st'] by simp
    next
      case (Some chunk)
      then show ?thesis using Pair Cons.IH[of _ st'] by (simp split: option.splits)
    qed
  qed
qed



subsection \<open>Datasets: the round trip\<close>

lemma chunk_index_less:
  assumes "0 < cs"
  shows "j < chunkCount len cs \<longleftrightarrow> j * cs < len"
proof -
  have "j < (len + cs - 1) div cs \<longleftrightarrow> Suc j \<le> (len + cs - 1) div cs" by auto
  also have "\<dots> \<longleftrightarrow> Suc j * cs \<le> len + cs - 1"
    using assms by (simp add: less_eq_div_iff_mult_less_eq)
  also have "\<dots> \<longleftrightarrow> j * cs < len" using assms by auto
  finally show ?thesis by (simp add: chunkCount_def)
qed

lemma concat_chunks_from:
  assumes "0 < cs"
  shows "n - j = k \<Longrightarrow> j \<le> n \<Longrightarrow> n = chunkCount (length xs) cs \<Longrightarrow>
         concat (map (\<lambda>j. take cs (drop (j * cs) xs)) [j..<n]) = drop (j * cs) xs"
proof (induction k arbitrary: j)
  case 0
  then have "j = n" by simp
  moreover have "\<not> n * cs < length xs"
    using chunk_index_less[OF assms, of n "length xs"] 0 by simp
  ultimately show ?case by simp
next
  case (Suc k)
  then have lt: "j < n" by simp
  have "concat (map (\<lambda>j. take cs (drop (j * cs) xs)) [Suc j..<n]) = drop (Suc j * cs) xs"
    using Suc.IH[of "Suc j"] Suc.prems by simp
  moreover have "take cs (drop (j * cs) xs) @ drop cs (drop (j * cs) xs) = drop (j * cs) xs"
    by (rule append_take_drop_id)
  ultimately show ?case
    using lt by (simp add: upt_conv_Cons)
qed

lemma concat_chunks:
  "0 < cs \<Longrightarrow>
   concat (map (\<lambda>j. take cs (drop (j * cs) xs)) [0..<chunkCount (length xs) cs]) = xs"
  using concat_chunks_from[of cs "chunkCount (length xs) cs" 0 _ xs] by simp

lemma store_cache:
  assumes "store E Cache key dat meta None t st = (ident, st')"
  shows "ident = generateId E key t"
    and "n \<noteq> ident \<Longrightarrow> map_of (files (cache_dir st')) n = map_of (files (cache_dir st)) n"
    and "holds_chunk st' ident chunk e \<longleftrightarrow> dat = JArr chunk \<and> e = t + maxCacheAge E"
    and "key \<noteq> ''__proto__'' \<Longrightarrow> map_of (index (cache_dir st')) key = Some ident"
proof -
  show i: "ident = generateId E key t" using assms by (auto simp: store_def Let_def)
  have st': "st' = updateIndex (writeFile st Cache ident (Valid
      \<lparr>rec_id = ident, rec_type = Cache, timestamp = t, expiresAt = Some (t + maxCacheAge E),
       metadata = obj_assign (obj_assign [] (spread (JObj meta)))
                    [(''key'', JStr key), (''size'', JNum (int (jsonSize E dat)))],
       data = dat\<rparr>)) Cache ident key meta"
    using assms by (auto simp: store_def Let_def)
  show "n \<noteq> ident \<Longrightarrow> map_of (files (cache_dir st')) n = map_of (files (cache_dir st)) n"
    using files_updateIndex[of _ Cache ident key meta Cache]
      files_writeFile[of st Cache ident _ Cache n]
    by (simp add: st')
  show "holds_chunk st' ident chunk e \<longleftrightarrow> dat = JArr chunk \<and> e = t + maxCacheAge E"
    using files_updateIndex[of _ Cache ident key meta Cache]
      files_writeFile[of st Cache ident _ Cache ident]
    by (auto simp: st' holds_chunk_def)
  show "key \<noteq> ''__proto__'' \<Longrightarrow> map_of (index (cache_dir st')) key = Some ident"
    using index_updateIndex[of _ Cache ident key meta Cache key] by (simp add: st')
qed


lemma holds_chunk_cong:
  "map_of (files (cache_dir st')) name = map_of (files (cache_dir st)) name \<Longrightarrow>
   holds_chunk st' name chunk e = holds_chunk st name chunk e"
  by (simp add: holds_chunk_def)

lemma storeChunks_spec:
  assumes cs: "0 < cs" and n: "n = chunkCount (length dat) cs"
  shows "n - j = k \<Longrightarrow> j \<le> n \<Longrightarrow> length chunks = j \<Longrightarrow>
    \<exists>st'. storeChunks E key dat cs meta dsid clk (j * cs) chunks st =
            Some (chunks @ map (chunkWriteId E key cs clk) [j..<n], st') \<and>
      (\<forall>name. name \<notin> chunkWriteId E key cs clk ` {j..<n} \<longrightarrow>
          map_of (files (cache_dir st')) name = map_of (files (cache_dir st)) name) \<and>
      (distinct (map (chunkWriteId E key cs clk) [j..<n]) \<longrightarrow>
         (\<forall>i. j \<le> i \<and> i < n \<longrightarrow>
            holds_chunk st' (chunkWriteId E key cs clk i) (take cs (drop (i * cs) dat))
              (clk i + maxCacheAge E)))"
proof (induction k arbitrary: j chunks st)
  case 0
  then have jn: "j = n" by simp
  have "\<not> n * cs < length dat"
    using chunk_index_less[OF cs, of n "length dat"] n by simp
  then have "storeChunks E key dat cs meta dsid clk (j * cs) chunks st = Some (chunks, st)"
    using jn by (subst storeChunks.simps) simp
  then show ?case using jn by auto
next
  case (Suc k)
  let ?cw = "chunkWriteId E key cs clk"
  from Suc.prems have lt: "j < n" by simp
  then have inb: "j * cs < length dat"
    using chunk_index_less[OF cs, of j "length dat"] n by simp
  let ?chunk = "take cs (drop (j * cs) dat)"
  obtain ident st1 where s1:
    "store E Cache (key @ ''-chunk-'' @ decimal (j * cs)) (JArr ?chunk)
       (chunkMetadata meta dsid (j * cs) cs (length dat)) None (clk j) st = (ident, st1)"
    by (cases "store E Cache (key @ ''-chunk-'' @ decimal (j * cs)) (JArr ?chunk)
       (chunkMetadata meta dsid (j * cs) cs (length dat)) None (clk j) st") blast
  note sc = store_cache[OF s1]
  have idj: "ident = ?cw j" using sc(1) by (simp add: chunkWriteId_def)
  have step: "storeChunks E key dat cs meta dsid clk (j * cs) chunks st =
              storeChunks E key dat cs meta dsid clk (Suc j * cs) (chunks @ [ident]) st1"
    using inb cs s1 Suc.prems(3)
    by (subst storeChunks.simps) (simp add: Let_def add.commute)
  have "n - Suc j = k" "Suc j \<le> n" "length (chunks @ [ident]) = Suc j"
    using Suc.prems by simp_all
  from Suc.IH[OF this, of st1] obtain st' where
    r: "storeChunks E key dat cs meta dsid clk (Suc j * cs) (chunks @ [ident]) st1 =
          Some ((chunks @ [ident]) @ map ?cw [Suc j..<n], st')"
    and frame: "\<forall>name. name \<notin> ?cw ` {Suc j..<n} \<longrightarrow>
          map_of (files (cache_dir st')) name = map_of (files (cache_dir st1)) name"
    and held: "distinct (map ?cw [Suc j..<n]) \<longrightarrow>
         (\<forall>i. Suc j \<le> i \<and> i < n \<longrightarrow>
            holds_chunk st' (?cw i) (take cs (drop (i * cs) dat)) (clk i + maxCacheAge E))"
    by blast
  have upt: "[j..<n] = j # [Suc j..<n]" using lt by (simp add: upt_conv_Cons)
  have res: "storeChunks E key dat cs meta dsid clk (j * cs) chunks st =
             Some (chunks @ map ?cw [j..<n], st')"
    using step r idj upt by simp
  have "{j..<n} = insert j {Suc j..<n}" using lt by auto
  then have img: "?cw ` {j..<n} = insert (?cw j) (?cw ` {Suc j..<n})"
    by (simp only: image_insert)
  have fr: "\<forall>name. name \<notin> ?cw ` {j..<n} \<longrightarrow>
          map_of (files (cache_dir st')) name = map_of (files (cache_dir st)) name"
  proof (intro allI impI)
    fix name assume a: "name \<notin> ?cw ` {j..<n}"
    then have "name \<noteq> ident" "name \<notin> ?cw ` {Suc j..<n}" using img idj by auto
    then show "map_of (files (cache_dir st')) name = map_of (files (cache_dir st)) name"
      using frame sc(2)[of name] by simp
  qed
  have hd: "distinct (map ?cw [j..<n]) \<longrightarrow>
         (\<forall>i. j \<le> i \<and> i < n \<longrightarrow>
            holds_chunk st' (?cw i) (take cs (drop (i * cs) dat)) (clk i + maxCacheAge E))"
  proof (intro allI impI)
    fix i assume d: "distinct (map ?cw [j..<n])" and i: "j \<le> i \<and> i < n"
    from d upt have notin: "?cw j \<notin> ?cw ` {Suc j..<n}" and d': "distinct (map ?cw [Suc j..<n])"
      by auto
    show "holds_chunk st' (?cw i) (take cs (drop (i * cs) dat)) (clk i + maxCacheAge E)"
    proof (cases "i = j")
      case True
      have "holds_chunk st1 ident ?chunk (clk j + maxCacheAge E)"
        using sc(3)[of ?chunk "clk j + maxCacheAge E"] by simp
      moreover have "map_of (files (cache_dir st')) ident = map_of (files (cache_dir st1)) ident"
        using frame notin idj by simp
      ultimately show ?thesis using True idj holds_chunk_cong[of st' ident st1] by simp
    next
      case False
      then have "Suc j \<le> i \<and> i < n" using i by simp
      then show ?thesis using held d' by simp
    qed
  qed
  show ?case using res fr hd by blast
qed


lemma loadChunks_present:
  "list_all2 (\<lambda>name chunk. \<exists>e. holds_chunk st name chunk e \<and> now \<le> e) names chunks \<Longrightarrow>
   loadChunks E now (map JStr names) acc st = (Inr (Some (acc @ concat chunks)), st)"
proof (induction names chunks arbitrary: acc rule: list_all2_induct)
  case Nil
  show ?case by simp
next
  case (Cons name names chunk chunks)
  from Cons.hyps(1) obtain e where h: "holds_chunk st name chunk e" and e: "now \<le> e"
    by blast
  from h obtain sd where
    sd: "map_of (files (dir_of st Cache)) name = Some (Valid sd)" "data sd = JArr chunk"
      "expiresAt sd = Some e"
    by (cases "map_of (files (cache_dir st)) name"; cases "the (map_of (files (cache_dir st)) name)")
       (simp_all add: holds_chunk_def)
  have "\<not> expired sd now" using sd(3) e by (simp add: expired_def)
  then have "retrieve Cache name now st = (Some sd, st)"
    using retrieve_by_name[OF sd(1), of now] by simp
  then show ?case using sd(2) Cons.IH[of "acc @ chunk"] by simp
qed

lemma generateId_not_dataset_key:
  assumes "hex_digest E"
  shows "generateId E k t \<noteq> ''dataset-'' @ key"
proof
  assume eq: "generateId E k t = ''dataset-'' @ key"
  have len: "length (md5hex E k) = 32" and hex: "set (md5hex E k) \<subseteq> set ''0123456789abcdef''"
    using assms by (simp_all add: hex_digest_def)
  have "generateId E k t ! 2 = md5hex E k ! 2"
    using len by (simp add: generateId_def nth_append)
  moreover have "md5hex E k ! 2 \<in> set (md5hex E k)" using len by simp
  moreover have "(''dataset-'' @ key) ! 2 = CHR ''t''" by simp
  ultimately have "CHR ''t'' \<in> set ''0123456789abcdef''" using hex eq by auto
  then show False by simp
qed

text \<open>
  Ids that were generated at different clock readings are different (the digest prefix
  has 8 characters, so the texts of the readings are compared); hence the writes of a
  \<^verbatim>\<open>storeDataset\<close> get pairwise distinct ids whenever no two of them read the same
  millisecond.
\<close>

lemma generateId_time:
  assumes "hex_digest E" and "generateId E k t = generateId E k' t'"
  shows "t = t'"
proof -
  have "length (take 8 (md5hex E k)) = length (take 8 (md5hex E k'))"
    using assms(1) by (simp add: hex_digest_def)
  then have "show_int t = show_int t'"
    using assms(2) by (simp add: generateId_def)
  then show ?thesis by (rule show_int_inj)
qed

lemma distinct_write_ids:
  assumes "hex_digest E" and "inj_on clk {0..chunkCount len chunkSize}"
  shows "distinct (datasetWriteIds E key len chunkSize clk)"
proof -
  let ?n = "chunkCount len chunkSize"
  let ?f = "\<lambda>j. if j < ?n then chunkWriteId E key chunkSize clk j
                 else generateId E (''dataset-'' @ key) (clk j)"
  have time: "\<exists>k. ?f j = generateId E k (clk j)" for j
    by (auto simp: chunkWriteId_def)
  have "inj_on ?f {0..?n}"
  proof (rule inj_onI)
    fix i j assume i: "i \<in> {0..?n}" and j: "j \<in> {0..?n}" and eq: "?f i = ?f j"
    obtain k k' where "?f i = generateId E k (clk i)" "?f j = generateId E k' (clk j)"
      using time by meson
    then have "clk i = clk j" using eq generateId_time[OF assms(1)] by metis
    then show "i = j" using assms(2) i j by (meson inj_onD)
  qed
  then have "distinct (map ?f [0..<Suc ?n])"
    by (simp add: distinct_map atLeastLessThanSuc_atLeastAtMost del: upt_Suc)
  moreover have "map ?f [0..<Suc ?n] = datasetWriteIds E key len chunkSize clk"
    by (simp add: datasetWriteIds_def)
  ultimately show ?thesis by metis
qed

lemma generateId_not_Nil: "generateId E k t \<noteq> []"
  by (simp add: generateId_def)

lemma chunksOf_manifest:
  "data m = manifest dsid key tot cs ids meta \<Longrightarrow> chunksOf m = Some (map JStr ids)"
  by (simp add: chunksOf_def manifest_def)

text \<open>
  The round trip when the writes get pairwise distinct ids. For every key, every list of
  items and every chunk size \<open>\<ge> 1\<close>, \<^verbatim>\<open>storeDataset\<close> returns, and
  \<^verbatim>\<open>retrieveDataset\<close> on the resulting store, at a time at which none of the records
  written has expired, returns exactly the original items (same order, same length) and
  leaves the store as it is: for any number of items, below, equal to and above the chunk
  size, in an environment whose digests are 32 hexadecimal digits and a cache directory
  that had no file named \<open>dataset-<key>\<close>.
\<close>

lemma dataset_round_trip:
  assumes "0 < chunkSize"
    and "hex_digest E"
    and "distinct (datasetWriteIds E key (length items) chunkSize clk)"
    and "\<not> fileExists (cache_dir st) (''dataset-'' @ key)"
    and "\<forall>k \<le> chunkCount (length items) chunkSize. now \<le> clk k + maxCacheAge E"
  shows "\<exists>st'. storeDataset E key items chunkSize meta t0 clk st =
                  Some (generateId E (''dataset-'' @ key) t0, st') \<and>
               retrieveDataset E key now st' = (Inr (Some items), st')"
proof -
  let ?n = "chunkCount (length items) chunkSize"
  let ?cw = "chunkWriteId E key chunkSize clk"
  let ?ids = "map ?cw [0..<?n]"
  let ?dsid = "generateId E (''dataset-'' @ key) t0"
  let ?mkey = "''dataset-'' @ key"
  let ?mid = "generateId E ?mkey (clk ?n)"
  have d: "distinct ?ids" and mid_new: "?mid \<notin> set ?ids"
    using assms(3) by (simp_all add: datasetWriteIds_def)
  from storeChunks_spec[where cs = chunkSize and dat = items and n = ?n and j = 0 and k = ?n
      and chunks = "[]" and E = E and key = key and meta = meta and dsid = ?dsid and clk = clk
      and st = st, OF assms(1) refl]
  obtain st1 where
    sc: "storeChunks E key items chunkSize meta ?dsid clk 0 [] st = Some (?ids, st1)"
    and frame: "\<forall>name. name \<notin> ?cw ` {0..<?n} \<longrightarrow>
          map_of (files (cache_dir st1)) name = map_of (files (cache_dir st)) name"
    and held: "\<forall>i. i < ?n \<longrightarrow>
            holds_chunk st1 (?cw i) (take chunkSize (drop (i * chunkSize) items))
              (clk i + maxCacheAge E)"
    using d by auto
  let ?m = "manifest ?dsid key (length items) chunkSize ?ids meta"
  obtain mid st2 where s2: "store E Cache ?mkey ?m meta None (clk ?n) st1 = (mid, st2)"
    by (cases "store E Cache ?mkey ?m meta None (clk ?n) st1") blast
  note c2 = store_cache[OF s2]
  have mid: "mid = ?mid" using c2(1) .
  from store_result[OF s2] obtain msd where
    msd: "map_of (files (dir_of st2 Cache)) mid = Some (Valid msd)" "data msd = ?m"
      "expiresAt msd = Some (clk ?n + maxCacheAge E)"
    and idx: "map_of (index (dir_of st2 Cache)) ?mkey = Some mid"
    by auto
  have sd: "storeDataset E key items chunkSize meta t0 clk st = Some (?dsid, st2)"
    using sc s2 by (simp add: storeDataset_def Let_def)
  have nofile1: "map_of (files (cache_dir st1)) ?mkey = None"
  proof -
    have "?mkey \<notin> ?cw ` {0..<?n}"
    proof
      assume "?mkey \<in> ?cw ` {0..<?n}"
      then obtain i where "?cw i = ?mkey" by auto
      then show False
        unfolding chunkWriteId_def using generateId_not_dataset_key[OF assms(2)] by blast
    qed
    then show ?thesis using frame assms(4) by (simp add: fileExists_def)
  qed
  have "?mkey \<noteq> mid" using generateId_not_dataset_key[OF assms(2)] mid by metis
  then have nofile2: "\<not> fileExists (dir_of st2 Cache) ?mkey"
    using c2(2)[of ?mkey] nofile1 by (simp add: fileExists_def)
  have "mid \<noteq> []" using mid generateId_not_Nil by simp
  then have res: "resolve (dir_of st2 Cache) ?mkey = Some mid"
    using nofile2 idx by (simp add: resolve_def findIdByKey_def)
  have "now \<le> clk ?n + maxCacheAge E" using assms(5) by blast
  then have alive: "\<not> expired msd now" using msd(3) by (simp add: expired_def)
  have rm: "retrieve Cache ?mkey now st2 = (Some msd, st2)"
    using res msd(1) alive by (simp add: retrieve_def)
  have held2: "holds_chunk st2 (?cw i) (take chunkSize (drop (i * chunkSize) items))
              (clk i + maxCacheAge E)" if "i < ?n" for i
  proof -
    have "?cw i \<in> set ?ids" using that by simp
    then have "?cw i \<noteq> mid" using mid_new mid by metis
    then have "map_of (files (cache_dir st2)) (?cw i) = map_of (files (cache_dir st1)) (?cw i)"
      using c2(2) by simp
    then show ?thesis using held that holds_chunk_cong[of st2 "?cw i" st1] by simp
  qed
  let ?chunks = "map (\<lambda>i. take chunkSize (drop (i * chunkSize) items)) [0..<?n]"
  have "list_all2 (\<lambda>name chunk. \<exists>e. holds_chunk st2 name chunk e \<and> now \<le> e) ?ids ?chunks"
  proof -
    have "\<exists>e. holds_chunk st2 (?cw i) (take chunkSize (drop (i * chunkSize) items)) e \<and> now \<le> e"
      if "i \<in> set [0..<?n]" for i
    proof -
      have "i < ?n" using that by simp
      moreover then have "now \<le> clk i + maxCacheAge E" using assms(5) by simp
      ultimately show ?thesis using held2 by blast
    qed
    then show ?thesis
      by (simp only: list_all2_map1 list_all2_map2 list_all2_same) blast
  qed
  from loadChunks_present[OF this, of E "[]"]
  have "loadChunks E now (map JStr ?ids) [] st2 = (Inr (Some (concat ?chunks)), st2)" by simp
  then have "retrieveDataset E key now st2 = (Inr (Some items), st2)"
    using rm chunksOf_manifest[OF msd(2)] concat_chunks[OF assms(1), of items]
    by (simp add: retrieveDataset_def)
  with sd show ?thesis by blast
qed


lemma dataset_round_trip_example:
  "(0::nat) < 2 \<and>
   distinct (datasetWriteIds example_env ''ds'' (length [JNum 1, JNum 2, JNum 3]) 2 example_clock) \<and>
   \<not> fileExists (cache_dir empty_storage) (''dataset-'' @ ''ds'') \<and>
   storeDataset example_env ''ds'' [JNum 1, JNum 2, JNum 3] 2 [] 999 example_clock empty_storage =
     Some (''a690eccf-999'', dataset_stored) \<and>
   retrieveDataset example_env ''ds'' 5000 dataset_stored =
     (Inr (Some [JNum 1, JNum 2, JNum 3]), dataset_stored)"
proof -
  have len: "length [JNum 1, JNum 2, JNum 3] = 3" by simp
  have h3: "distinct (datasetWriteIds example_env ''ds'' (length [JNum 1, JNum 2, JNum 3]) 2 example_clock)"
    by (simp only: len datasetWriteIds_example) simp
  have h4: "\<not> fileExists (cache_dir empty_storage) (''dataset-'' @ ''ds'')"
    by (simp add: fileExists_def empty_storage_def empty_directory_def)
  have h5: "\<forall>k \<le> chunkCount (length [JNum 1, JNum 2, JNum 3]) 2.
              5000 \<le> example_clock k + maxCacheAge example_env"
    by (simp add: example_clock_def)
  have s: "storeDataset example_env ''ds'' [JNum 1, JNum 2, JNum 3] 2 [] 999 example_clock empty_storage =
     Some (''a690eccf-999'', dataset_stored)"
    by (simp add: storeDataset_example dataset_stored_eq)
  show ?thesis
    using dataset_round_trip[where chunkSize = 2 and E = example_env and key = "''ds''"
        and items = "[JNum 1, JNum 2, JNum 3]" and clk = example_clock and st = empty_storage
        and now = 5000 and meta = "[]" and ?t0.0 = 999, OF _ hex_digest_example h3 h4 h5]
      h3 h4 s
    by auto
qed



subsection \<open>Datasets: two chunks under one id\<close>

lemma generateId_collision:
  "generateId example_env ''dataset-ds22422721'' 1000 = ''139ffe82-1000''"
  "generateId example_env ''ds22422721-chunk-0'' 1000 = ''8e991df6-1000''"
  "generateId example_env ''ds22422721-chunk-2'' 1000 = ''10f93ea7-1000''"
  "generateId example_env ''ds22422721-chunk-4'' 1000 = ''dad87afe-1000''"
  "generateId example_env ''ds22422721-chunk-6'' 1000 = ''10f93ea7-1000''"
  by (simp_all add: generateId_def show_int_def example_md5_def decimal.simps)

lemma decimal_even:
  "decimal 4 = ''4''" "decimal 6 = ''6''"
  "decimal (Suc (Suc (Suc (Suc 0)))) = ''4''"
  "decimal (Suc (Suc (Suc (Suc (Suc (Suc 0)))))) = ''6''"
  by (simp_all add: decimal.simps)

lemma collision_files:
  "map (\<lambda>(name, f). (name, case f of Valid sd \<Rightarrow> Some (data sd) | Corrupt \<Rightarrow> None))
       (files (cache_dir collision_stored)) =
     [(''8e991df6-1000'', Some (JArr [JNum 0, JNum 1])),
      (''10f93ea7-1000'', Some (JArr [JNum 6])),
      (''dad87afe-1000'', Some (JArr [JNum 4, JNum 5])),
      (''139ffe82-1000'', Some (manifest ''139ffe82-1000'' ''ds22422721'' 7 2
          [''8e991df6-1000'', ''10f93ea7-1000'', ''dad87afe-1000'', ''10f93ea7-1000''] []))]"
  by (simp add: collision_stored_def seven_items_def storeDataset_def storeChunks.simps Let_def
      store_def generateId_collision decimal_examples decimal_even frozen_clock_def
      chunkMetadata_def obj_assign_def writeFile_def updateIndex_def empty_storage_def
      empty_directory_def manifest_def)

text \<open>
  C2. The claim (the round trip returns exactly the original items) is what the two
  functions set out to do, and they do it whenever the writes get distinct ids. The id
  of a write is the first eight characters of the digest of its key and the millisecond
  of the clock, so two chunks whose keys agree on those eight characters and that are
  written in the same millisecond get one id, and the later chunk replaces the file of
  the earlier one. For the key \<open>ds22422721\<close>, seven items and chunks of two, the chunks
  at the offsets 2 and 6 both get the id \<open>10f93ea7-1000\<close>: the manifest lists that id
  twice, and the dataset read back has six items, the item 6 in the place of the items
  2 and 3. This is the defect of \<^verbatim>\<open>generateId\<close> that C3 shows for two writes of one key.
\<close>

theorem dataset_round_trip_id_collision:
  "map_option fst (storeDataset example_env ''ds22422721'' seven_items 2 [] 1000 frozen_clock
      empty_storage) = Some ''139ffe82-1000'' \<and>
   chunkWriteId example_env ''ds22422721'' 2 frozen_clock 1 = ''10f93ea7-1000'' \<and>
   chunkWriteId example_env ''ds22422721'' 2 frozen_clock 3 = ''10f93ea7-1000'' \<and>
   seven_items = [JNum 0, JNum 1, JNum 2, JNum 3, JNum 4, JNum 5, JNum 6] \<and>
   fst (retrieveDataset example_env ''ds22422721'' 1000 collision_stored) =
     Inr (Some [JNum 0, JNum 1, JNum 6, JNum 4, JNum 5, JNum 6])"
  by (simp add: collision_stored_def seven_items_def storeDataset_def storeChunks.simps Let_def
      store_def generateId_collision decimal_examples decimal_even frozen_clock_def
      chunkMetadata_def obj_assign_def writeFile_def updateIndex_def empty_storage_def
      empty_directory_def manifest_def retrieveDataset_def retrieve_def resolve_def
      fileExists_def findIdByKey_def chunksOf_def expired_def chunkWriteId_def)
end
